theory Spec2Isabelle
  imports Main "HOL-Library.Word"
begin

section \<open>HPMA115 driver: data model\<close>

text \<open>
  The driver \<^verbatim>\<open>HPMA115.py\<close> talks to a particulate-matter sensor over a serial port.
  Bytes are 8-bit words; Python's unbounded integers are \<open>int\<close>. The private
  functions \<^verbatim>\<open>_checksum\<close>, \<^verbatim>\<open>_send\<close> and \<^verbatim>\<open>_recv\<close> are named \<open>checksum\<close>, \<open>send\<close>
  and \<open>recv\<close> here, since an identifier cannot start with an underscore.
\<close>

type_synonym byte = "8 word"

text \<open>
  The exceptions of the module (\<open>CommandFailure\<close>, \<open>ChecksumFailure\<close>,
  \<open>SerialDataMalformed\<close>) and the built-in ones its statements can raise:
  \<open>ValueError\<close> (the coefficient guard, a value outside \<open>range(256)\<close> put into a
  bytearray), \<open>IndexError\<close> (indexing a short header), \<open>StructError\<close>
  (\<^verbatim>\<open>struct.unpack\<close> on a buffer of the wrong size) and \<open>TypeError\<close>
  (\<^verbatim>\<open>struct.unpack\<close> on \<^verbatim>\<open>None\<close>).
\<close>

datatype error =
    CommandFailure
  | ChecksumFailure
  | SerialDataMalformed
  | ValueError
  | IndexError
  | StructError
  | TypeError

datatype PacketState = DATA | POSACK | NEGACK

record Response =
  state :: PacketState
  data :: "byte list option"

text \<open>
  A sample object. \<open>SampleC0\<close> always has its four attributes. \<open>SampleS0.__init__\<close>
  assigns its two attributes only in the branches for 2 and for 13 fields, so each
  attribute of a \<open>SampleS0\<close> is optional: \<open>None\<close> is an attribute that was never set.
\<close>

datatype sample =
    SampleC0 (C0_PM1_0: nat) (C0_PM2_5: nat) (C0_PM4_0: nat) (C0_PM10: nat)
  | SampleS0 (PM2_5: "nat option") (PM10: "nat option")

datatype variant = HPMA115C0 | HPMA115S0

subsection \<open>The serial port\<close>

text \<open>
  The port is the external collaborator. Its model keeps the bytes waiting in the input
  buffer (\<open>rx\<close>) and a log of every call made on the port, in order, together with the
  calls of \<^verbatim>\<open>time.sleep\<close> (in milliseconds). A \<^verbatim>\<open>read(n)\<close> returns the first \<open>n\<close> waiting
  bytes, or all of them when fewer than \<open>n\<close> are waiting: that is the short read
  pyserial returns when its timeout elapses.
\<close>

datatype event =
    Write "byte list"
  | Read nat
  | ResetInput
  | Sleep nat

record serial =
  rx :: "byte list"
  log :: "event list"

definition ser_write :: "byte list \<Rightarrow> serial \<Rightarrow> serial" where
  "ser_write packet s = s\<lparr>log := log s @ [Write packet]\<rparr>"

definition ser_read :: "nat \<Rightarrow> serial \<Rightarrow> byte list \<times> serial" where
  "ser_read n s = (take n (rx s), s\<lparr>rx := drop n (rx s), log := log s @ [Read n]\<rparr>)"

definition reset_input_buffer :: "serial \<Rightarrow> serial" where
  "reset_input_buffer s = s\<lparr>rx := [], log := log s @ [ResetInput]\<rparr>"

definition sleep :: "nat \<Rightarrow> serial \<Rightarrow> serial" where
  "sleep ms s = s\<lparr>log := log s @ [Sleep ms]\<rparr>"

subsection \<open>Python primitives\<close>

text \<open>\<^verbatim>\<open>sum(packet)\<close> over a bytes object: an unbounded integer.\<close>

definition sum_bytes :: "byte list \<Rightarrow> int" where
  "sum_bytes packet = sum_list (map uint packet)"

text \<open>\<^verbatim>\<open>bytearray.append(v)\<close>: \<open>ValueError\<close> unless \<open>v\<close> is in \<open>range(256)\<close>.\<close>

definition bytearray_append :: "byte list \<Rightarrow> int \<Rightarrow> error + byte list" where
  "bytearray_append packet v =
     (if 0 \<le> v \<and> v < 256 then Inr (packet @ [word_of_int v]) else Inl ValueError)"

text \<open>\<^verbatim>\<open>bytes([v])\<close> for a list of integers: \<open>ValueError\<close> unless each is in \<open>range(256)\<close>.\<close>

definition bytes :: "int list \<Rightarrow> error + byte list" where
  "bytes vs =
     (if list_all (\<lambda>v. 0 \<le> v \<and> v < 256) vs then Inr (map word_of_int vs)
      else Inl ValueError)"

text \<open>\<^verbatim>\<open>header[i]\<close> on a bytes object, for a non-negative index.\<close>

definition getitem :: "byte list \<Rightarrow> nat \<Rightarrow> error + byte" where
  "getitem bs i = (if i < length bs then Inr (bs ! i) else Inl IndexError)"

text \<open>\<^verbatim>\<open>int.from_bytes(bs, "big")\<close>; the empty sequence gives 0.\<close>

definition from_bytes_big :: "byte list \<Rightarrow> int" where
  "from_bytes_big bs = foldl (\<lambda>acc b. acc * 256 + uint b) 0 bs"

text \<open>
  \<^verbatim>\<open>struct.unpack(">H...H", buf)\<close> with \<open>n\<close> fields: \<open>TypeError\<close> when the buffer is
  \<^verbatim>\<open>None\<close>, \<open>struct.error\<close> unless it holds exactly \<open>2 * n\<close> bytes, else the \<open>n\<close>
  big-endian 16-bit fields.
\<close>

fun be16_fields :: "byte list \<Rightarrow> nat list" where
  "be16_fields (hi # lo # rest) = (unat hi * 256 + unat lo) # be16_fields rest"
| "be16_fields _ = []"

definition struct_unpack_H :: "nat \<Rightarrow> byte list option \<Rightarrow> error + nat list" where
  "struct_unpack_H n buf =
     (case buf of
        None \<Rightarrow> Inl TypeError
      | Some bs \<Rightarrow> if length bs = 2 * n then Inr (be16_fields bs) else Inl StructError)"

section \<open>Samples\<close>

text \<open>\<open>SampleC0.__init__\<close>: the first four fields; a shorter tuple raises \<open>IndexError\<close>.\<close>

definition SampleC0_init :: "nat list \<Rightarrow> error + sample" where
  "SampleC0_init tup =
     (if length tup < 4 then Inl IndexError
      else Inr (SampleC0 (tup ! 0) (tup ! 1) (tup ! 2) (tup ! 3)))"

text \<open>
  \<open>SampleS0.__init__\<close>: two fields map directly, thirteen fields give positions 1 and 2,
  and for any other length neither branch runs and no attribute is set.
\<close>

definition SampleS0_init :: "nat list \<Rightarrow> sample" where
  "SampleS0_init tup =
     (if length tup = 2 then SampleS0 (Some (tup ! 0)) (Some (tup ! 1))
      else if length tup = 13 then SampleS0 (Some (tup ! 1)) (Some (tup ! 2))
      else SampleS0 None None)"

text \<open>The class attribute \<open>SampleCls\<close> of the two subclasses.\<close>

fun SampleCls :: "variant \<Rightarrow> nat list \<Rightarrow> error + sample" where
  "SampleCls HPMA115C0 tup = SampleC0_init tup"
| "SampleCls HPMA115S0 tup = Inr (SampleS0_init tup)"

section \<open>Frames\<close>

definition checksum :: "byte list \<Rightarrow> int" where
  "checksum packet = (65536 - sum_bytes packet) mod 256"

text \<open>
  \<open>_send\<close>: the packet is built by appending to a bytearray, and each append can raise
  before anything is written to the port.
\<close>

definition send :: "int \<Rightarrow> byte list option \<Rightarrow> serial \<Rightarrow> (error + unit) \<times> serial" where
  "send command payload s =
     (case bytearray_append [] 0x68 of
        Inl e \<Rightarrow> (Inl e, s)
      | Inr p0 \<Rightarrow>
     (case bytearray_append p0 (case payload of Some d \<Rightarrow> int (length d) + 1 | None \<Rightarrow> 0x01) of
        Inl e \<Rightarrow> (Inl e, s)
      | Inr p1 \<Rightarrow>
     (case bytearray_append p1 command of
        Inl e \<Rightarrow> (Inl e, s)
      | Inr p2 \<Rightarrow>
     (let p3 = (case payload of Some d \<Rightarrow> p2 @ d | None \<Rightarrow> p2) in
      case bytearray_append p3 (checksum p3) of
        Inl e \<Rightarrow> (Inl e, s)
      | Inr packet \<Rightarrow> (Inr (), ser_write packet s)))))"

text \<open>
  \<open>_recv\<close>. The condition \<^verbatim>\<open>header[0] == a and header[1] == b\<close> short-circuits:
  \<^verbatim>\<open>header[1]\<close> is evaluated, and can raise, only when the first comparison holds.
\<close>

definition header_is :: "byte list \<Rightarrow> byte \<Rightarrow> byte \<Rightarrow> error + bool" where
  "header_is header a b =
     (case getitem header 0 of
        Inl e \<Rightarrow> Inl e
      | Inr h0 \<Rightarrow>
          if h0 = a then (case getitem header 1 of Inl e \<Rightarrow> Inl e | Inr h1 \<Rightarrow> Inr (h1 = b))
          else Inr False)"

text \<open>The branch for header byte \<open>0x40\<close>: a command-response data frame.\<close>

definition recv_command_data :: "byte list \<Rightarrow> serial \<Rightarrow> (error + Response) \<times> serial" where
  "recv_command_data header s1 =
     (case getitem header 1 of
        Inl e \<Rightarrow> (Inl e, s1)
      | Inr h1 \<Rightarrow>
          (let (body, s2) = ser_read (unat h1) s1;
               (csb, s3) = ser_read 1 s2;
               cs = from_bytes_big csb
           in if cs \<noteq> checksum (header @ body) then (Inl ChecksumFailure, s3)
              else (Inr \<lparr>state = DATA, data = Some (drop 1 body)\<rparr>, s3)))"

text \<open>The branch for header \<open>0x42 0x4D\<close>: a streaming data frame.\<close>

definition recv_stream_data :: "byte list \<Rightarrow> serial \<Rightarrow> (error + Response) \<times> serial" where
  "recv_stream_data header s1 =
     (let (body, s2) = ser_read 28 s1;
          (csb, s3) = ser_read 2 s2
      in if length csb \<noteq> 2 then (Inl StructError, s3)
         else
           (let cs = from_bytes_big csb;
                calc_cs = sum_bytes (header @ body) mod 65536
            in if cs \<noteq> calc_cs then (Inl ChecksumFailure, s3)
               else (Inr \<lparr>state = DATA, data = Some (drop 2 body)\<rparr>, s3)))"

definition recv :: "serial \<Rightarrow> (error + Response) \<times> serial" where
  "recv s =
     (let (header, s1) = ser_read 2 s in
      case getitem header 0 of
        Inl e \<Rightarrow> (Inl e, s1)
      | Inr h0 \<Rightarrow>
          if h0 = 0x40 then recv_command_data header s1
          else
            (case header_is header 0x42 0x4D of
               Inl e \<Rightarrow> (Inl e, s1)
             | Inr True \<Rightarrow> recv_stream_data header s1
             | Inr False \<Rightarrow>
            (case header_is header 0xA5 0xA5 of
               Inl e \<Rightarrow> (Inl e, s1)
             | Inr True \<Rightarrow> (Inr \<lparr>state = POSACK, data = None\<rparr>, s1)
             | Inr False \<Rightarrow>
            (case header_is header 0x96 0x96 of
               Inl e \<Rightarrow> (Inl e, s1)
             | Inr True \<Rightarrow> (Inr \<lparr>state = NEGACK, data = None\<rparr>, s1)
             | Inr False \<Rightarrow> (Inl SerialDataMalformed, reset_input_buffer s1)))))"

section \<open>Driver operations\<close>

text \<open>
  \<open>__init__\<close>, after the port has been opened: two commands, a pause and a flush.
\<close>

definition init :: "serial \<Rightarrow> (error + unit) \<times> serial" where
  "init s =
     (case send 0x20 None s of
        (Inl e, s1) \<Rightarrow> (Inl e, s1)
      | (Inr _, s1) \<Rightarrow>
     (case send 0x02 None s1 of
        (Inl e, s2) \<Rightarrow> (Inl e, s2)
      | (Inr _, s2) \<Rightarrow> (Inr (), reset_input_buffer (sleep 200 s2))))"

text \<open>
  The pattern shared by \<open>stop_measurement\<close>, \<open>start_measurement\<close> and
  \<open>set_cust_adj_coeff\<close>: send, receive once, raise on a negative acknowledgement.
\<close>

definition command_ack :: "int \<Rightarrow> byte list option \<Rightarrow> serial \<Rightarrow> (error + unit) \<times> serial" where
  "command_ack command payload s =
     (case send command payload s of
        (Inl e, s1) \<Rightarrow> (Inl e, s1)
      | (Inr _, s1) \<Rightarrow>
     (case recv s1 of
        (Inl e, s2) \<Rightarrow> (Inl e, s2)
      | (Inr rsp, s2) \<Rightarrow>
          if state rsp = NEGACK then (Inl CommandFailure, s2) else (Inr (), s2)))"

definition stop_measurement :: "serial \<Rightarrow> (error + unit) \<times> serial" where
  "stop_measurement s = command_ack 0x02 None s"

definition start_measurement :: "serial \<Rightarrow> (error + unit) \<times> serial" where
  "start_measurement s = command_ack 0x01 None s"

definition sample :: "variant \<Rightarrow> serial \<Rightarrow> (error + sample) \<times> serial" where
  "sample v s =
     (case send 0x04 None s of
        (Inl e, s1) \<Rightarrow> (Inl e, s1)
      | (Inr _, s1) \<Rightarrow>
     (case recv s1 of
        (Inl e, s2) \<Rightarrow> (Inl e, s2)
      | (Inr rsp, s2) \<Rightarrow>
          if state rsp = NEGACK then (Inl CommandFailure, s2)
          else
            (case struct_unpack_H 6 (data rsp) of
               Inl e \<Rightarrow> (Inl e, s2)
             | Inr tup \<Rightarrow>
                 (case SampleCls v tup of
                    Inl e \<Rightarrow> (Inl e, s2)
                  | Inr smp \<Rightarrow> (Inr smp, s2)))))"

definition set_cust_adj_coeff :: "int \<Rightarrow> serial \<Rightarrow> (error + unit) \<times> serial" where
  "set_cust_adj_coeff coeff s =
     (if coeff < 30 \<or> coeff > 200 then (Inl ValueError, s)
      else
        (case bytes [coeff] of
           Inl e \<Rightarrow> (Inl e, s)
         | Inr payload \<Rightarrow> command_ack 0x08 (Some payload) s))"

definition read_cust_adj_coeff :: "serial \<Rightarrow> (error + int) \<times> serial" where
  "read_cust_adj_coeff s =
     (case send 0x10 None s of
        (Inl e, s1) \<Rightarrow> (Inl e, s1)
      | (Inr _, s1) \<Rightarrow>
     (case recv s1 of
        (Inl e, s2) \<Rightarrow> (Inl e, s2)
      | (Inr rsp, s2) \<Rightarrow>
          if state rsp = NEGACK then (Inl CommandFailure, s2)
          else
            (case data rsp of
               None \<Rightarrow> (Inl TypeError, s2)
             | Some bs \<Rightarrow> (Inr (from_bytes_big bs), s2))))"

subsection \<open>Streaming\<close>

text \<open>
  The \<^verbatim>\<open>while True\<close> loop of \<open>autosample\<close>. The callback is a Python closure, so it
  is modelled with a state of its own (\<open>'c\<close>) that each call may change. Every
  iteration that does not raise consumes at least the two header bytes, and the waiting
  input is finite, so the loop is total: once the input is exhausted the header read
  comes back empty and \<^verbatim>\<open>header[0]\<close> raises.
\<close>

function autosample_loop ::
  "variant \<Rightarrow> ('c \<Rightarrow> sample \<Rightarrow> bool \<times> 'c) \<Rightarrow> 'c \<Rightarrow> serial \<Rightarrow> (error + unit) \<times> 'c \<times> serial" where
  "autosample_loop v callback c s =
     (case recv s of
        (Inl e, s1) \<Rightarrow> (Inl e, c, s1)
      | (Inr rsp, s1) \<Rightarrow>
          if state rsp = NEGACK then (Inl CommandFailure, c, s1)
          else
            (case struct_unpack_H 13 (data rsp) of
               Inl e \<Rightarrow> (Inl e, c, s1)
             | Inr tup \<Rightarrow>
                 (case SampleCls v tup of
                    Inl e \<Rightarrow> (Inl e, c, s1)
                  | Inr smp \<Rightarrow>
                      (case callback c smp of
                         (False, c') \<Rightarrow>
                           (case send 0x20 None s1 of
                              (Inl e, s2) \<Rightarrow> (Inl e, c', s2)
                            | (Inr _, s2) \<Rightarrow> (Inr (), c', reset_input_buffer (sleep 200 s2)))
                       | (True, c') \<Rightarrow> autosample_loop v callback c' s1))))"
  by pat_completeness auto
termination
proof (relation "measure (\<lambda>(v, callback, c, s). length (rx s))")
  show "wf (measure (\<lambda>(v, callback, c, s). length (rx s)))" by simp
next
  fix v :: variant and callback :: "'c \<Rightarrow> sample \<Rightarrow> bool \<times> 'c" and c c' :: 'c
    and s s1 :: serial and x1 :: "error + Response" and rsp :: Response
  assume r: "(x1, s1) = recv s" and x: "x1 = Inr rsp"
  have "length (rx s1) < length (rx s)"
    using r x
    by (auto simp: recv_def recv_command_data_def recv_stream_data_def ser_read_def
        getitem_def header_is_def Let_def reset_input_buffer_def
        split: if_splits sum.splits bool.splits prod.splits)
  then show "((v, callback, c', s1), (v, callback, c, s))
      \<in> measure (\<lambda>(v, callback, c, s). length (rx s))"
    by simp
qed

declare autosample_loop.simps [simp del]

definition autosample ::
  "variant \<Rightarrow> ('c \<Rightarrow> sample \<Rightarrow> bool \<times> 'c) \<Rightarrow> 'c \<Rightarrow> serial \<Rightarrow> (error + unit) \<times> 'c \<times> serial" where
  "autosample v callback c s =
     (case send 0x40 None s of
        (Inl e, s1) \<Rightarrow> (Inl e, c, s1)
      | (Inr _, s1) \<Rightarrow>
     (case recv s1 of
        (Inl e, s2) \<Rightarrow> (Inl e, c, s2)
      | (Inr rsp, s2) \<Rightarrow>
          if state rsp = NEGACK then (Inl CommandFailure, c, s2)
          else autosample_loop v callback c s2))"

subsection \<open>Points of a streaming run\<close>

text \<open>
  The port state in which \<open>autosample\<close> reaches its loop: the enable command has been
  sent and the response to it was read and was not a negative acknowledgement. Any other
  start of \<open>autosample\<close> never reaches the loop.
\<close>

definition loop_entry :: "serial \<Rightarrow> serial option" where
  "loop_entry p =
     (case send 0x40 None p of
        (Inl e, s1) \<Rightarrow> None
      | (Inr _, s1) \<Rightarrow>
     (case recv s1 of
        (Inl e, s2) \<Rightarrow> None
      | (Inr rsp, s2) \<Rightarrow> if state rsp = NEGACK then None else Some s2))"

text \<open>
  The consumer state and port state at the head of the loop after \<open>n\<close> further
  iterations, each of which read a response, built a sample from it and had the consumer
  return true. \<open>None\<close> when one of these \<open>n\<close> iterations ends the loop instead.
\<close>

fun loop_head ::
  "variant \<Rightarrow> ('c \<Rightarrow> sample \<Rightarrow> bool \<times> 'c) \<Rightarrow> nat \<Rightarrow> 'c \<Rightarrow> serial \<Rightarrow> ('c \<times> serial) option" where
  "loop_head v callback 0 c s = Some (c, s)"
| "loop_head v callback (Suc n) c s =
     (case recv s of
        (Inl e, s1) \<Rightarrow> None
      | (Inr rsp, s1) \<Rightarrow>
          if state rsp = NEGACK then None
          else
            (case struct_unpack_H 13 (data rsp) of
               Inl e \<Rightarrow> None
             | Inr tup \<Rightarrow>
                 (case SampleCls v tup of
                    Inl e \<Rightarrow> None
                  | Inr smp \<Rightarrow>
                      (case callback c smp of
                         (False, c') \<Rightarrow> None
                       | (True, c') \<Rightarrow> loop_head v callback n c' s1))))"

subsection \<open>Reading the log and the arguments\<close>

text \<open>
  The packets written to the port between an earlier state \<open>s\<close> and a later state \<open>s'\<close>
  of the same port, and the frame of the disable command \<open>0x20\<close> as \<open>send\<close> builds it.
\<close>

fun writes :: "event list \<Rightarrow> byte list list" where
  "writes [] = []"
| "writes (Write packet # evs) = packet # writes evs"
| "writes (_ # evs) = writes evs"

definition written_since :: "serial \<Rightarrow> serial \<Rightarrow> byte list list" where
  "written_since s s' = writes (drop (length (log s)) (log s'))"

definition disable_frame :: "byte list" where
  "disable_frame = [0x68, 0x01, 0x20, 0x77]"

text \<open>The frame of the enable command \<open>0x40\<close>.\<close>

definition enable_frame :: "byte list" where
  "enable_frame = [0x68, 0x01, 0x40, 0x57]"

text \<open>
  The frame \<open>set_cust_adj_coeff\<close> sends: command \<open>0x08\<close> with the coefficient as its
  one payload byte.
\<close>

definition coeff_frame :: "int \<Rightarrow> byte list" where
  "coeff_frame coeff =
     [0x68, 0x02, 0x08, word_of_int coeff,
      word_of_int (checksum [0x68, 0x02, 0x08, word_of_int coeff])]"

text \<open>The payload bytes \<open>send\<close> appends: none when the argument is \<^verbatim>\<open>None\<close>.\<close>

definition payload_bytes :: "byte list option \<Rightarrow> byte list" where
  "payload_bytes payload = (case payload of Some d \<Rightarrow> d | None \<Rightarrow> [])"

section \<open>Basic facts\<close>

lemmas recv_defs = recv_def recv_command_data_def recv_stream_data_def ser_read_def
  getitem_def header_is_def reset_input_buffer_def

lemma uint_byte_of_int: "0 \<le> v \<Longrightarrow> v < 256 \<Longrightarrow> uint (word_of_int v :: byte) = v"
  by (simp add: uint_word_of_int take_bit_int_eq_self)

lemma checksum_range: "0 \<le> checksum packet \<and> checksum packet < 256"
  by (simp add: checksum_def)

lemma from_bytes_big_two: "from_bytes_big [c1, c2] = uint c1 * 256 + uint c2"
  by (simp add: from_bytes_big_def)

lemma recv_posack:
  "rx s = 0xA5 # 0xA5 # rest \<Longrightarrow>
   recv s = (Inr \<lparr>state = POSACK, data = None\<rparr>, s\<lparr>rx := rest, log := log s @ [Read 2]\<rparr>)"
  by (simp add: recv_defs Let_def)

lemma recv_negack:
  "rx s = 0x96 # 0x96 # rest \<Longrightarrow>
   recv s = (Inr \<lparr>state = NEGACK, data = None\<rparr>, s\<lparr>rx := rest, log := log s @ [Read 2]\<rparr>)"
  by (simp add: recv_defs Let_def)

lemma writes_append: "writes (xs @ ys) = writes xs @ writes ys"
  by (induction xs rule: writes.induct) simp_all

text \<open>\<open>_recv\<close> only reads and resets: it appends events to the log, none of them a write.\<close>

lemma recv_log: "\<exists>evs. log (snd (recv s)) = log s @ evs \<and> writes evs = []"
  by (auto simp add: recv_defs Let_def split: sum.splits bool.splits prod.splits)

lemma send_disable:
  "send 0x20 None s = (Inr (), s\<lparr>log := log s @ [Write disable_frame]\<rparr>)"
  by (simp add: send_def bytearray_append_def ser_write_def checksum_def sum_bytes_def
      disable_frame_def)

lemma send_enable:
  "send 0x40 None s = (Inr (), s\<lparr>log := log s @ [Write enable_frame]\<rparr>)"
  by (simp add: send_def bytearray_append_def ser_write_def checksum_def sum_bytes_def
      enable_frame_def)

lemma send_coeff:
  "30 \<le> coeff \<Longrightarrow> coeff \<le> 200 \<Longrightarrow>
   send 0x08 (Some [word_of_int coeff]) s =
     (Inr (), s\<lparr>log := log s @ [Write (coeff_frame coeff)]\<rparr>)"
  by (simp add: send_def bytearray_append_def ser_write_def checksum_range coeff_frame_def)

section \<open>Command frames\<close>

text \<open>
  C2, as the code has it. For a command in \<open>range(256)\<close> and a payload of at most 254
  bytes (\<^verbatim>\<open>None\<close> counting as no bytes), \<open>_send\<close> writes exactly one packet:
  \<open>0x68\<close>, a length byte equal to the payload length plus 1, the command byte, the
  payload, and a checksum byte equal to (65536 - sum of the preceding bytes) mod 256.
  The bound on the payload is needed: the length is appended to a bytearray, which
  holds values below 256 only.
\<close>

theorem send_frame:
  assumes "0 \<le> command" and "command < 256" and "length (payload_bytes payload) \<le> 254"
  shows "\<exists>len cmd cs.
           send command payload s =
             (Inr (), s\<lparr>log := log s @ [Write ([0x68, len, cmd] @ payload_bytes payload @ [cs])]\<rparr>) \<and>
           unat len = length (payload_bytes payload) + 1 \<and>
           uint cmd = command \<and>
           uint cs = (65536 - sum_bytes ([0x68, len, cmd] @ payload_bytes payload)) mod 256"
proof -
  define d where "d = payload_bytes payload"
  define len :: byte where "len = word_of_int (int (length d) + 1)"
  define cmd :: byte where "cmd = word_of_int command"
  define cs :: byte where "cs = word_of_int (checksum ([0x68, len, cmd] @ d))"
  have l: "int (length d) + 1 < 256" using assms(3) by (simp add: d_def)
  have 1: "uint len = int (length d) + 1"
    unfolding len_def by (rule uint_byte_of_int) (use l in simp_all)
  then have 2: "unat len = length d + 1"
    by (simp add: unat_eq_nat_uint)
  have 3: "uint cmd = command"
    unfolding cmd_def by (rule uint_byte_of_int) (use assms in simp_all)
  have 4: "uint cs = checksum ([0x68, len, cmd] @ d)"
    unfolding cs_def by (rule uint_byte_of_int) (use checksum_range in simp_all)
  have 5: "send command payload s = (Inr (), s\<lparr>log := log s @ [Write ([0x68, len, cmd] @ d @ [cs])]\<rparr>)"
    using assms l checksum_range [of "[0x68, len, cmd] @ d"]
    by (cases payload)
       (simp_all add: send_def bytearray_append_def ser_write_def d_def payload_bytes_def
          len_def cmd_def cs_def Let_def)
  show ?thesis
    using 2 3 4 5 unfolding d_def checksum_def by blast
qed

text \<open>
  The theorem at the coefficient command with a one-byte payload and at the disable
  command without payload.
\<close>

theorem send_frame_witness:
  "(0::int) \<le> 0x08 \<and> (0x08::int) < 256 \<and> length (payload_bytes (Some [100])) \<le> 254 \<and>
   (\<exists>len cmd cs.
      send 0x08 (Some [100]) \<lparr>rx = [], log = []\<rparr> =
        (Inr (), \<lparr>rx = [], log = [Write ([0x68, len, cmd] @ [100] @ [cs])]\<rparr>) \<and>
      unat len = 2 \<and> uint cmd = 0x08 \<and>
      uint cs = (65536 - sum_bytes ([0x68, len, cmd] @ [100])) mod 256)"
  using send_frame [of "0x08" "Some [100]" "\<lparr>rx = [], log = []\<rparr>"]
  by (simp add: payload_bytes_def numeral_2_eq_2)

text \<open>
  C2 as stated fails for a payload of 255 bytes: the length 256 does not fit the
  bytearray, \<open>_send\<close> raises \<open>ValueError\<close> and writes nothing.
\<close>

theorem send_long_payload_counterexample:
  "send 0x08 (Some (replicate 255 0)) \<lparr>rx = [], log = []\<rparr> =
     (Inl ValueError, \<lparr>rx = [], log = []\<rparr>)"
  by (simp add: send_def bytearray_append_def)

section \<open>Response frames\<close>

text \<open>
  C3. When the input starts with \<open>0x42 0x4D\<close>, a 28-byte body and two checksum bytes,
  \<open>_recv\<close> reads 2, 28 and 2 bytes, compares the big-endian checksum with the plain sum
  of header and body modulo 65536, raises \<open>ChecksumFailure\<close> when they differ and
  otherwise returns a \<open>DATA\<close> response holding the body without its first two bytes.
\<close>

theorem recv_stream_frame:
  assumes "rx s = [0x42, 0x4D] @ body @ [c1, c2] @ rest" and "length body = 28"
  shows "recv s =
           (if uint c1 * 256 + uint c2 = sum_bytes ([0x42, 0x4D] @ body) mod 65536
            then Inr \<lparr>state = DATA, data = Some (drop 2 body)\<rparr>
            else Inl ChecksumFailure,
            s\<lparr>rx := rest, log := log s @ [Read 2, Read 28, Read 2]\<rparr>)"
  using assms by (simp add: recv_defs from_bytes_big_two Let_def)

text \<open>
  The theorem at a frame of 26 payload bytes of value 1, once with its checksum
  \<open>0x00C5\<close> and once with the checksum off by one.
\<close>

theorem recv_stream_frame_witness:
  "rx \<lparr>rx = [0x42, 0x4D] @ (0 # 28 # replicate 26 1) @ [0, 0xC5] @ [], log = []\<rparr> =
     [0x42, 0x4D] @ (0 # 28 # replicate 26 1) @ [0, 0xC5] @ [] \<and>
   length (0 # 28 # replicate 26 (1::byte)) = 28 \<and>
   recv \<lparr>rx = [0x42, 0x4D] @ (0 # 28 # replicate 26 1) @ [0, 0xC5] @ [], log = []\<rparr> =
     (Inr \<lparr>state = DATA, data = Some (replicate 26 1)\<rparr>,
      \<lparr>rx = [], log = [Read 2, Read 28, Read 2]\<rparr>) \<and>
   recv \<lparr>rx = [0x42, 0x4D] @ (0 # 28 # replicate 26 1) @ [0, 0xC6] @ [], log = []\<rparr> =
     (Inl ChecksumFailure, \<lparr>rx = [], log = [Read 2, Read 28, Read 2]\<rparr>)"
  using recv_stream_frame [of "\<lparr>rx = [0x42, 0x4D] @ (0 # 28 # replicate 26 1) @ [0, 0xC5] @ [], log = []\<rparr>"
      "0 # 28 # replicate 26 1" 0 "0xC5" "[]"]
    recv_stream_frame [of "\<lparr>rx = [0x42, 0x4D] @ (0 # 28 # replicate 26 1) @ [0, 0xC6] @ [], log = []\<rparr>"
      "0 # 28 # replicate 26 1" 0 "0xC6" "[]"]
  by (simp add: sum_bytes_def sum_list_replicate)

text \<open>
  C6. A two-byte header that is neither \<open>0x40 _\<close>, \<open>0x42 0x4D\<close>, \<open>0xA5 0xA5\<close> nor
  \<open>0x96 0x96\<close> makes \<open>_recv\<close> read the header, call \<open>reset_input_buffer\<close> once and
  raise \<open>SerialDataMalformed\<close>; nothing else is read or written.
\<close>

theorem recv_malformed:
  assumes "rx s = h0 # h1 # rest"
    and "h0 \<noteq> 0x40"
    and "\<not> (h0 = 0x42 \<and> h1 = 0x4D)"
    and "\<not> (h0 = 0xA5 \<and> h1 = 0xA5)"
    and "\<not> (h0 = 0x96 \<and> h1 = 0x96)"
  shows "recv s = (Inl SerialDataMalformed, s\<lparr>rx := [], log := log s @ [Read 2, ResetInput]\<rparr>)"
  using assms by (auto simp add: recv_defs Let_def)

theorem recv_malformed_witness:
  "rx \<lparr>rx = [0x41, 0x05, 0x09], log = []\<rparr> = 0x41 # 0x05 # [0x09] \<and>
   (0x41 :: byte) \<noteq> 0x40 \<and>
   \<not> ((0x41 :: byte) = 0x42 \<and> (0x05 :: byte) = 0x4D) \<and>
   \<not> ((0x41 :: byte) = 0xA5 \<and> (0x05 :: byte) = 0xA5) \<and>
   \<not> ((0x41 :: byte) = 0x96 \<and> (0x05 :: byte) = 0x96) \<and>
   recv \<lparr>rx = [0x41, 0x05, 0x09], log = []\<rparr> =
     (Inl SerialDataMalformed, \<lparr>rx = [], log = [Read 2, ResetInput]\<rparr>)"
  using recv_malformed [of "\<lparr>rx = [0x41, 0x05, 0x09], log = []\<rparr>" "0x41" "0x05" "[0x09]"]
  by simp

section \<open>The coefficient\<close>

text \<open>
  C7. A coefficient below 30 or above 200 makes \<open>set_cust_adj_coeff\<close> raise
  \<open>ValueError\<close> with the port untouched: nothing is written. A coefficient from 30 to
  200 passes the guard, and the first thing done on the port is the write of one frame
  of five bytes with command \<open>0x08\<close> and the coefficient as its payload byte; no other
  packet is written. When the device answers \<open>0xA5 0xA5\<close> the call returns normally.
\<close>

theorem set_cust_adj_coeff_bounds:
  "(coeff < 30 \<or> 200 < coeff \<longrightarrow> set_cust_adj_coeff coeff s = (Inl ValueError, s)) \<and>
   (30 \<le> coeff \<and> coeff \<le> 200 \<longrightarrow>
      (\<exists>evs. log (snd (set_cust_adj_coeff coeff s)) = log s @ Write (coeff_frame coeff) # evs \<and>
             writes evs = []) \<and>
      length (coeff_frame coeff) = 5 \<and> coeff_frame coeff ! 2 = 0x08 \<and>
      uint (coeff_frame coeff ! 3) = coeff) \<and>
   (30 \<le> coeff \<and> coeff \<le> 200 \<and> rx s = 0xA5 # 0xA5 # rest \<longrightarrow>
      set_cust_adj_coeff coeff s =
        (Inr (), s\<lparr>rx := rest, log := log s @ [Write (coeff_frame coeff), Read 2]\<rparr>))"
proof (intro conjI impI)
  assume "coeff < 30 \<or> 200 < coeff"
  then show "set_cust_adj_coeff coeff s = (Inl ValueError, s)"
    by (auto simp add: set_cust_adj_coeff_def)
next
  assume a: "30 \<le> coeff \<and> coeff \<le> 200"
  define s1 where "s1 = s\<lparr>log := log s @ [Write (coeff_frame coeff)]\<rparr>"
  obtain evs where e: "log (snd (recv s1)) = log s1 @ evs" "writes evs = []"
    using recv_log by blast
  have "snd (set_cust_adj_coeff coeff s) = snd (recv s1)"
    using a by (simp add: set_cust_adj_coeff_def bytes_def command_ack_def send_coeff s1_def
        split: prod.splits sum.splits)
  with e show "\<exists>evs. log (snd (set_cust_adj_coeff coeff s)) = log s @ Write (coeff_frame coeff) # evs \<and>
             writes evs = []"
    by (simp add: s1_def)
  show "length (coeff_frame coeff) = 5" by (simp add: coeff_frame_def)
  show "coeff_frame coeff ! 2 = 0x08" by (simp add: coeff_frame_def)
  have "uint (word_of_int coeff :: byte) = coeff"
    by (rule uint_byte_of_int) (use a in simp_all)
  then show "uint (coeff_frame coeff ! 3) = coeff" by (simp add: coeff_frame_def)
next
  assume a: "30 \<le> coeff \<and> coeff \<le> 200 \<and> rx s = 0xA5 # 0xA5 # rest"
  then have "recv (s\<lparr>log := log s @ [Write (coeff_frame coeff)]\<rparr>) =
      (Inr \<lparr>state = POSACK, data = None\<rparr>,
       s\<lparr>rx := rest, log := log s @ [Write (coeff_frame coeff), Read 2]\<rparr>)"
    by (simp add: recv_posack [of _ rest])
  with a show "set_cust_adj_coeff coeff s =
        (Inr (), s\<lparr>rx := rest, log := log s @ [Write (coeff_frame coeff), Read 2]\<rparr>)"
    by (simp add: set_cust_adj_coeff_def bytes_def command_ack_def send_coeff)
qed

text \<open>The theorem at 29, 201, 30 and 200, with a positive acknowledgement waiting.\<close>

theorem set_cust_adj_coeff_bounds_witness:
  "set_cust_adj_coeff 29 \<lparr>rx = [0xA5, 0xA5], log = []\<rparr> =
     (Inl ValueError, \<lparr>rx = [0xA5, 0xA5], log = []\<rparr>) \<and>
   set_cust_adj_coeff 201 \<lparr>rx = [0xA5, 0xA5], log = []\<rparr> =
     (Inl ValueError, \<lparr>rx = [0xA5, 0xA5], log = []\<rparr>) \<and>
   set_cust_adj_coeff 30 \<lparr>rx = [0xA5, 0xA5], log = []\<rparr> =
     (Inr (), \<lparr>rx = [], log = [Write [0x68, 0x02, 0x08, 30, 0x70], Read 2]\<rparr>) \<and>
   set_cust_adj_coeff 200 \<lparr>rx = [0xA5, 0xA5], log = []\<rparr> =
     (Inr (), \<lparr>rx = [], log = [Write [0x68, 0x02, 0x08, 200, 0xC6], Read 2]\<rparr>)"
  using set_cust_adj_coeff_bounds [of 29 "\<lparr>rx = [0xA5, 0xA5], log = []\<rparr>" "[]"]
    set_cust_adj_coeff_bounds [of 201 "\<lparr>rx = [0xA5, 0xA5], log = []\<rparr>" "[]"]
    set_cust_adj_coeff_bounds [of 30 "\<lparr>rx = [0xA5, 0xA5], log = []\<rparr>" "[]"]
    set_cust_adj_coeff_bounds [of 200 "\<lparr>rx = [0xA5, 0xA5], log = []\<rparr>" "[]"]
  by (simp add: coeff_frame_def checksum_def sum_bytes_def)

section \<open>Samples of the S0 variant\<close>

text \<open>
  C8. \<open>SampleS0\<close> built from two fields \<open>[a, b]\<close> has \<open>PM2_5 = a\<close> and \<open>PM10 = b\<close>, and
  built from thirteen fields with \<open>a\<close> and \<open>b\<close> at positions 1 and 2 it is the same
  sample: the other eleven positions do not matter.
\<close>

theorem SampleS0_dual_mapping:
  "SampleS0_init [a, b] = SampleS0 (Some a) (Some b) \<and>
   (length tup = 13 \<and> tup ! 1 = a \<and> tup ! 2 = b \<longrightarrow>
      SampleS0_init tup = SampleS0 (Some a) (Some b))"
  by (simp add: SampleS0_init_def)

theorem SampleS0_dual_mapping_witness:
  "SampleS0_init [55, 77] = SampleS0 (Some 55) (Some 77) \<and>
   length [0, 55, 77, 1, 2, 3, 4, 5, 6, 7, 8, 9, 10 :: nat] = 13 \<and>
   SampleS0_init [0, 55, 77, 1, 2, 3, 4, 5, 6, 7, 8, 9, 10] = SampleS0 (Some 55) (Some 77)"
  using SampleS0_dual_mapping [of 55 77 "[0, 55, 77, 1, 2, 3, 4, 5, 6, 7, 8, 9, 10]"]
  by simp

section \<open>Streaming\<close>

subsection \<open>What the loop writes\<close>

text \<open>
  The loop writes nothing before it ends, and on ending it has written the disable frame
  exactly when it returns normally.
\<close>

lemma loop_written:
  "autosample_loop v callback c s = (r, c', s') \<Longrightarrow>
   \<exists>evs. log s' = log s @ evs \<and>
         writes evs = (case r of Inl e \<Rightarrow> [] | Inr u \<Rightarrow> [disable_frame])"
proof (induction v callback c s arbitrary: r c' s' rule: autosample_loop.induct)
  case (1 v callback c s)
  obtain x s1 where rs: "recv s = (x, s1)" by (cases "recv s")
  obtain evs1 where l1: "log s1 = log s @ evs1" "writes evs1 = []"
    using recv_log [of s] rs by auto
  note unf = autosample_loop.simps [of v callback c s]
  show ?case
  proof (cases x)
    case (Inl e)
    with rs "1.prems" l1 show ?thesis by (auto simp add: unf)
  next
    case (Inr rsp)
    note x = this
    show ?thesis
    proof (cases "state rsp = NEGACK")
      case True
      with x rs "1.prems" l1 show ?thesis by (auto simp add: unf)
    next
      case False
      note st = this
      show ?thesis
      proof (cases "struct_unpack_H 13 (data rsp)")
        case (Inl e)
        with st x rs "1.prems" l1 show ?thesis by (auto simp add: unf)
      next
        case (Inr tup)
        note tu = this
        show ?thesis
        proof (cases "SampleCls v tup")
          case (Inl e)
          with tu st x rs "1.prems" l1 show ?thesis by (auto simp add: unf)
        next
          case (Inr smp)
          note sm = this
          obtain b c1 where cb: "callback c smp = (b, c1)" by (cases "callback c smp")
          show ?thesis
          proof (cases b)
            case False
            with cb sm tu st x rs "1.prems" l1 show ?thesis
              by (auto simp add: unf send_disable sleep_def reset_input_buffer_def writes_append)
          next
            case True
            with cb sm tu st x rs "1.prems" have "autosample_loop v callback c1 s1 = (r, c', s')"
              by (simp add: unf)
            moreover have "b = True" using True by simp
            ultimately have "\<exists>evs. log s' = log s1 @ evs \<and>
                writes evs = (case r of Inl e \<Rightarrow> [] | Inr u \<Rightarrow> [disable_frame])"
              using "1.IH" [OF rs [symmetric] x st tu sm cb [symmetric]] by blast
            then obtain evs where "log s' = log s1 @ evs"
              "writes evs = (case r of Inl e \<Rightarrow> [] | Inr u \<Rightarrow> [disable_frame])" by blast
            with l1 show ?thesis by (auto simp add: writes_append)
          qed
        qed
      qed
    qed
  qed
qed

lemma autosample_written:
  assumes a: "autosample v callback c s = (r, c', s')"
  shows "written_since s s' =
           (case r of Inl e \<Rightarrow> [enable_frame] | Inr u \<Rightarrow> [enable_frame, disable_frame])"
proof -
  define s0 where "s0 = s\<lparr>log := log s @ [Write enable_frame]\<rparr>"
  obtain x s1 where rs: "recv s0 = (x, s1)" by (cases "recv s0")
  obtain evs1 where l1: "log s1 = log s0 @ evs1" "writes evs1 = []"
    using recv_log [of s0] rs by auto
  show ?thesis
  proof (cases x)
    case (Inl e)
    with a rs l1 show ?thesis
      by (auto simp add: autosample_def send_enable s0_def written_since_def writes_append)
  next
    case (Inr rsp)
    show ?thesis
    proof (cases "state rsp = NEGACK")
      case True
      with Inr a rs l1 show ?thesis
        by (auto simp add: autosample_def send_enable s0_def written_since_def writes_append)
    next
      case False
      with Inr a rs have "autosample_loop v callback c s1 = (r, c', s')"
        by (simp add: autosample_def send_enable s0_def)
      from loop_written [OF this] obtain evs where "log s' = log s1 @ evs"
        "writes evs = (case r of Inl e \<Rightarrow> [] | Inr u \<Rightarrow> [disable_frame])" by blast
      with l1 show ?thesis
        by (auto simp add: s0_def written_since_def writes_append split: sum.splits)
    qed
  qed
qed


text \<open>A normal return of the loop comes from a call of the consumer that returned false.\<close>

lemma loop_return_consumer:
  "autosample_loop v callback c s = (Inr u, c', s') \<Longrightarrow>
   \<exists>c0 smp. callback c0 smp = (False, c')"
proof (induction v callback c s arbitrary: c' s' rule: autosample_loop.induct)
  case (1 v callback c s)
  obtain x s1 where rs: "recv s = (x, s1)" by (cases "recv s")
  note unf = autosample_loop.simps [of v callback c s]
  show ?case
  proof (cases x)
    case (Inl e)
    with rs "1.prems" show ?thesis by (simp add: unf)
  next
    case (Inr rsp)
    note x = this
    show ?thesis
    proof (cases "state rsp = NEGACK")
      case True
      with x rs "1.prems" show ?thesis by (simp add: unf)
    next
      case False
      note st = this
      show ?thesis
      proof (cases "struct_unpack_H 13 (data rsp)")
        case (Inl e)
        with st x rs "1.prems" show ?thesis by (simp add: unf)
      next
        case (Inr tup)
        note tu = this
        show ?thesis
        proof (cases "SampleCls v tup")
          case (Inl e)
          with tu st x rs "1.prems" show ?thesis by (simp add: unf)
        next
          case (Inr smp)
          note sm = this
          obtain b c1 where cb: "callback c smp = (b, c1)" by (cases "callback c smp")
          show ?thesis
          proof (cases b)
            case False
            with cb sm tu st x rs "1.prems" have "c' = c1"
              by (simp add: unf send_disable)
            with cb False have "callback c smp = (False, c')" by simp
            then show ?thesis by (intro exI)
          next
            case True
            with cb sm tu st x rs "1.prems" have "autosample_loop v callback c1 s1 = (Inr u, c', s')"
              by (simp add: unf)
            moreover have "b = True" using True by simp
            ultimately show ?thesis
              using "1.IH" [OF rs [symmetric] x st tu sm cb [symmetric]] by blast
          qed
        qed
      qed
    qed
  qed
qed

lemma autosample_return_consumer:
  assumes "autosample v callback c s = (Inr u, c', s')"
  shows "\<exists>c0 smp. callback c0 smp = (False, c')"
proof -
  from assms obtain s2 where "autosample_loop v callback c s2 = (Inr u, c', s')"
    by (auto simp add: autosample_def send_enable split: prod.splits sum.splits if_splits)
  then show ?thesis by (rule loop_return_consumer)
qed

subsection \<open>From the entry to a later iteration\<close>

text \<open>
  An iteration in which the consumer returns true hands over to the next one, so the
  result of the loop from its entry is its result from any loop head reached later.
\<close>

lemma loop_head_continues:
  "loop_head v callback n c s = Some (ck, sk) \<Longrightarrow>
   autosample_loop v callback c s = autosample_loop v callback ck sk"
proof (induction n arbitrary: c s)
  case 0
  then show ?case by simp
next
  case (Suc n)
  obtain x s1 where rs: "recv s = (x, s1)" by (cases "recv s")
  from Suc.prems rs obtain rsp tup smp c1 where
    x: "x = Inr rsp" and st: "state rsp \<noteq> NEGACK"
    and tu: "struct_unpack_H 13 (data rsp) = Inr tup" and sm: "SampleCls v tup = Inr smp"
    and cb: "callback c smp = (True, c1)" and rest: "loop_head v callback n c1 s1 = Some (ck, sk)"
    by (auto split: sum.splits if_splits prod.splits bool.splits)
  have "autosample_loop v callback c s = autosample_loop v callback c1 s1"
    using rs x st tu sm cb by (simp add: autosample_loop.simps [of v callback c s])
  also have "\<dots> = autosample_loop v callback ck sk" by (rule Suc.IH [OF rest])
  finally show ?case .
qed

lemma autosample_enters_loop:
  "loop_entry p = Some q \<Longrightarrow> autosample v callback c p = autosample_loop v callback c q"
  by (auto simp add: loop_entry_def autosample_def split: prod.splits sum.splits if_splits)

lemma loop_step_negack:
  "recv s = (Inr rsp, sr) \<Longrightarrow> state rsp = NEGACK \<Longrightarrow>
   autosample_loop v callback c s = (Inl CommandFailure, c, sr)"
  by (simp add: autosample_loop.simps [of v callback c s])

lemma loop_step_refused:
  "recv s = (Inr rsp, sr) \<Longrightarrow> state rsp \<noteq> NEGACK \<Longrightarrow>
   struct_unpack_H 13 (data rsp) = Inr tup \<Longrightarrow> SampleCls v tup = Inr smp \<Longrightarrow>
   callback c smp = (False, c') \<Longrightarrow>
   autosample_loop v callback c s =
     (Inr (), c', sr\<lparr>rx := [], log := log sr @ [Write disable_frame, Sleep 200, ResetInput]\<rparr>)"
  by (simp add: autosample_loop.simps [of v callback c s] send_disable sleep_def
      reset_input_buffer_def)

lemma loop_step_error:
  "recv s = (Inl e, sr) \<Longrightarrow> autosample_loop v callback c s = (Inl e, c, sr)"
  by (simp add: autosample_loop.simps [of v callback c s])

subsection \<open>Concrete frames\<close>

text \<open>
  A streaming frame with 26 payload bytes of value 1 (checksum \<open>0x00C5\<close>), the same
  frame with a wrong checksum, and an unknown header.
\<close>

lemma unpack_ones: "struct_unpack_H 13 (Some (replicate 26 1)) = Inr (replicate 13 257)"
  by (simp add: struct_unpack_H_def numeral_eq_Suc)

lemma recv_ones_then:
  "recv \<lparr>rx = [0x42, 0x4D] @ (0 # 28 # replicate 26 1) @ [0, 0xC5] @ rest, log = l\<rparr> =
     (Inr \<lparr>state = DATA, data = Some (replicate 26 1)\<rparr>,
      \<lparr>rx = rest, log = l @ [Read 2, Read 28, Read 2]\<rparr>)"
  by (simp add: recv_defs Let_def from_bytes_big_def sum_bytes_def sum_list_replicate)

lemma recv_bad_checksum:
  "recv \<lparr>rx = [0x42, 0x4D] @ (0 # 28 # replicate 26 1) @ [0, 0xC6] @ rest, log = l\<rparr> =
     (Inl ChecksumFailure, \<lparr>rx = rest, log = l @ [Read 2, Read 28, Read 2]\<rparr>)"
  by (simp add: recv_defs Let_def from_bytes_big_def sum_bytes_def sum_list_replicate)

lemma recv_bad_header:
  "recv \<lparr>rx = [0x41, 0x00], log = l\<rparr> =
     (Inl SerialDataMalformed, \<lparr>rx = [], log = l @ [Read 2, ResetInput]\<rparr>)"
  by (simp add: recv_defs Let_def)


lemma recv_negack_then:
  "recv \<lparr>rx = [0x96, 0x96], log = l\<rparr> =
     (Inr \<lparr>state = NEGACK, data = None\<rparr>, \<lparr>rx = [], log = l @ [Read 2]\<rparr>)"
  by (simp add: recv_defs Let_def)

lemma loop_entry_posack:
  "loop_entry \<lparr>rx = 0xA5 # 0xA5 # rest, log = l\<rparr> =
     Some \<lparr>rx = rest, log = l @ [Write enable_frame, Read 2]\<rparr>"
  by (simp add: loop_entry_def send_enable recv_defs Let_def)

lemma loop_head_one:
  "loop_head v callback (Suc 0) c
      \<lparr>rx = [0x42, 0x4D] @ (0 # 28 # replicate 26 1) @ [0, 0xC5] @ rest, log = l\<rparr> =
     (case SampleCls v (replicate 13 257) of
        Inl e \<Rightarrow> None
      | Inr smp \<Rightarrow>
          (case callback c smp of
             (False, c') \<Rightarrow> None
           | (True, c') \<Rightarrow> Some (c', \<lparr>rx = rest, log = l @ [Read 2, Read 28, Read 2]\<rparr>)))"
  by (simp add: recv_ones_then [simplified] unpack_ones split: sum.splits prod.splits bool.splits)

text \<open>A run: acknowledgement, then one good frame at which the consumer asks to stop.\<close>

lemma autosample_stop_run:
  "autosample HPMA115S0 (\<lambda>n smp. (False, Suc n)) (0::nat)
      \<lparr>rx = [0xA5, 0xA5] @ [0x42, 0x4D] @ (0 # 28 # replicate 26 1) @ [0, 0xC5] @ [],
       log = []\<rparr> =
    (Inr (), 1,
     \<lparr>rx = [],
       log = [Write enable_frame, Read 2, Read 2, Read 28, Read 2,
              Write disable_frame, Sleep 200, ResetInput]\<rparr>)"
proof -
  let ?cb = "\<lambda>(n::nat) (smp::sample). (False, Suc n)"
  have 1: "autosample_loop HPMA115S0 ?cb 0
      \<lparr>rx = [0x42, 0x4D] @ (0 # 28 # replicate 26 1) @ [0, 0xC5] @ [],
       log = [Write enable_frame, Read 2]\<rparr> =
    (Inr (), 1,
     \<lparr>rx = [],
       log = [Write enable_frame, Read 2, Read 2, Read 28, Read 2,
              Write disable_frame, Sleep 200, ResetInput]\<rparr>)"
    by (subst autosample_loop.simps)
       (simp add: recv_ones_then [simplified] unpack_ones SampleS0_init_def send_disable
          sleep_def reset_input_buffer_def)
  have 0: "recv \<lparr>rx = [0xA5, 0xA5] @ [0x42, 0x4D] @ (0 # 28 # replicate 26 1) @ [0, 0xC5] @ [],
       log = [] @ [Write enable_frame]\<rparr> =
     (Inr \<lparr>state = POSACK, data = None\<rparr>,
      \<lparr>rx = [0x42, 0x4D] @ (0 # 28 # replicate 26 1) @ [0, 0xC5] @ [],
       log = [Write enable_frame, Read 2]\<rparr>)"
    by (simp add: recv_defs Let_def)
  show ?thesis
    by (simp add: autosample_def send_enable 0 [simplified] 1 [simplified])
qed

subsection \<open>Stopping\<close>

text \<open>
  C1, as the code has it. Take any run of the loop from its entry and any iteration of it,
  the first one or one reached after \<open>n\<close> samples that the consumer accepted, in which
  \<open>_recv\<close> returns a response. When the response is a sample for which the consumer
  returns false, the whole loop, and \<open>autosample\<close> with it, writes the disable frame
  \<open>68 01 20 77\<close>, sleeps 200 ms, resets the input buffer and returns normally. When the
  response is a negative acknowledgement, the loop and \<open>autosample\<close> raise
  \<open>CommandFailure\<close> in the state \<open>_recv\<close> left: nothing is written, no sleep is made
  and the buffer is not reset.
\<close>

theorem autosample_loop_stop:
  assumes "loop_head v callback n c q = Some (ck, sk)" and "recv sk = (Inr rsp, sr)"
  shows "(state rsp = NEGACK \<longrightarrow>
            autosample_loop v callback c q = (Inl CommandFailure, ck, sr) \<and>
            (loop_entry p = Some q \<longrightarrow> autosample v callback c p = (Inl CommandFailure, ck, sr))) \<and>
         (state rsp \<noteq> NEGACK \<and> struct_unpack_H 13 (data rsp) = Inr tup \<and>
          SampleCls v tup = Inr smp \<and> callback ck smp = (False, c') \<longrightarrow>
            autosample_loop v callback c q =
              (Inr (), c', sr\<lparr>rx := [], log := log sr @ [Write disable_frame, Sleep 200, ResetInput]\<rparr>) \<and>
            (loop_entry p = Some q \<longrightarrow>
               autosample v callback c p =
                 (Inr (), c', sr\<lparr>rx := [], log := log sr @ [Write disable_frame, Sleep 200, ResetInput]\<rparr>)))"
proof -
  note head = loop_head_continues [OF assms(1)]
  show ?thesis
  proof (intro conjI impI)
    assume n: "state rsp = NEGACK"
    show l: "autosample_loop v callback c q = (Inl CommandFailure, ck, sr)"
      using head loop_step_negack [OF assms(2) n] by simp
    assume "loop_entry p = Some q"
    from autosample_enters_loop [OF this, of v callback c] l
    show "autosample v callback c p = (Inl CommandFailure, ck, sr)" by simp
  next
    assume a: "state rsp \<noteq> NEGACK \<and> struct_unpack_H 13 (data rsp) = Inr tup \<and>
          SampleCls v tup = Inr smp \<and> callback ck smp = (False, c')"
    then have "autosample_loop v callback ck sk =
        (Inr (), c', sr\<lparr>rx := [], log := log sr @ [Write disable_frame, Sleep 200, ResetInput]\<rparr>)"
      by (intro loop_step_refused [OF assms(2)]) blast+
    with head show l: "autosample_loop v callback c q =
        (Inr (), c', sr\<lparr>rx := [], log := log sr @ [Write disable_frame, Sleep 200, ResetInput]\<rparr>)"
      by simp
    assume "loop_entry p = Some q"
    from autosample_enters_loop [OF this, of v callback c] l
    show "autosample v callback c p =
        (Inr (), c', sr\<lparr>rx := [], log := log sr @ [Write disable_frame, Sleep 200, ResetInput]\<rparr>)"
      by simp
  qed
qed

text \<open>
  The theorem at two runs that start with an acknowledgement and one accepted frame: in
  the first the consumer refuses the second frame, in the second a negative
  acknowledgement follows.
\<close>

theorem autosample_loop_stop_witness:
  "loop_entry \<lparr>rx = 0xA5 # 0xA5 # [0x42, 0x4D] @ (0 # 28 # replicate 26 1) @ [0, 0xC5] @
       [0x42, 0x4D] @ (0 # 28 # replicate 26 1) @ [0, 0xC5] @ [], log = []\<rparr> =
     Some \<lparr>rx = [0x42, 0x4D] @ (0 # 28 # replicate 26 1) @ [0, 0xC5] @
       [0x42, 0x4D] @ (0 # 28 # replicate 26 1) @ [0, 0xC5] @ [],
       log = [Write enable_frame, Read 2]\<rparr> \<and>
   loop_head HPMA115S0 (\<lambda>n smp. (n = 0, Suc n)) (Suc 0) (0::nat)
     \<lparr>rx = [0x42, 0x4D] @ (0 # 28 # replicate 26 1) @ [0, 0xC5] @
       [0x42, 0x4D] @ (0 # 28 # replicate 26 1) @ [0, 0xC5] @ [],
       log = [Write enable_frame, Read 2]\<rparr> =
     Some (Suc 0, \<lparr>rx = [0x42, 0x4D] @ (0 # 28 # replicate 26 1) @ [0, 0xC5] @ [],
       log = [Write enable_frame, Read 2, Read 2, Read 28, Read 2]\<rparr>) \<and>
   autosample HPMA115S0 (\<lambda>n smp. (n = 0, Suc n)) (0::nat)
     \<lparr>rx = 0xA5 # 0xA5 # [0x42, 0x4D] @ (0 # 28 # replicate 26 1) @ [0, 0xC5] @
       [0x42, 0x4D] @ (0 # 28 # replicate 26 1) @ [0, 0xC5] @ [], log = []\<rparr> =
     (Inr (), Suc (Suc 0),
      \<lparr>rx = [],
        log = [Write enable_frame, Read 2, Read 2, Read 28, Read 2, Read 2, Read 28, Read 2,
               Write disable_frame, Sleep 200, ResetInput]\<rparr>) \<and>
   loop_head HPMA115S0 (\<lambda>n smp. (n = 0, Suc n)) (Suc 0) (0::nat)
     \<lparr>rx = [0x42, 0x4D] @ (0 # 28 # replicate 26 1) @ [0, 0xC5] @ [0x96, 0x96],
       log = [Write enable_frame, Read 2]\<rparr> =
     Some (Suc 0, \<lparr>rx = [0x96, 0x96],
       log = [Write enable_frame, Read 2, Read 2, Read 28, Read 2]\<rparr>) \<and>
   autosample HPMA115S0 (\<lambda>n smp. (n = 0, Suc n)) (0::nat)
     \<lparr>rx = 0xA5 # 0xA5 # [0x42, 0x4D] @ (0 # 28 # replicate 26 1) @ [0, 0xC5] @ [0x96, 0x96],
       log = []\<rparr> =
     (Inl CommandFailure, Suc 0,
      \<lparr>rx = [], log = [Write enable_frame, Read 2, Read 2, Read 28, Read 2, Read 2]\<rparr>)"
proof -
  let ?cb = "\<lambda>(n::nat) (smp::sample). (n = 0, Suc n)"
  let ?F = "[0x42, 0x4D] @ (0 # 28 # replicate 26 1) @ [0, 0xC5::byte]"
  let ?l = "[Write enable_frame, Read 2]"
  have e1: "loop_entry \<lparr>rx = 0xA5 # 0xA5 # ?F @ ?F @ [], log = []\<rparr> =
      Some \<lparr>rx = ?F @ ?F @ [], log = ?l\<rparr>"
    using loop_entry_posack [of "?F @ ?F @ []" "[]"] by simp
  have h1: "loop_head HPMA115S0 ?cb (Suc 0) 0 \<lparr>rx = ?F @ ?F @ [], log = ?l\<rparr> =
      Some (Suc 0, \<lparr>rx = ?F @ [], log = ?l @ [Read 2, Read 28, Read 2]\<rparr>)"
    using loop_head_one [of HPMA115S0 ?cb 0 "?F @ []" ?l] by (simp add: SampleS0_init_def)
  have r1: "recv \<lparr>rx = ?F @ [], log = ?l @ [Read 2, Read 28, Read 2]\<rparr> =
      (Inr \<lparr>state = DATA, data = Some (replicate 26 1)\<rparr>,
       \<lparr>rx = [], log = (?l @ [Read 2, Read 28, Read 2]) @ [Read 2, Read 28, Read 2]\<rparr>)"
    using recv_ones_then [of "[]" "?l @ [Read 2, Read 28, Read 2]"] by simp
  have e2: "loop_entry \<lparr>rx = 0xA5 # 0xA5 # ?F @ [0x96, 0x96], log = []\<rparr> =
      Some \<lparr>rx = ?F @ [0x96, 0x96], log = ?l\<rparr>"
    using loop_entry_posack [of "?F @ [0x96, 0x96]" "[]"] by simp
  have h2: "loop_head HPMA115S0 ?cb (Suc 0) 0 \<lparr>rx = ?F @ [0x96, 0x96], log = ?l\<rparr> =
      Some (Suc 0, \<lparr>rx = [0x96, 0x96], log = ?l @ [Read 2, Read 28, Read 2]\<rparr>)"
    using loop_head_one [of HPMA115S0 ?cb 0 "[0x96, 0x96]" ?l] by (simp add: SampleS0_init_def)
  have r2: "recv \<lparr>rx = [0x96, 0x96], log = ?l @ [Read 2, Read 28, Read 2]\<rparr> =
      (Inr \<lparr>state = NEGACK, data = None\<rparr>,
       \<lparr>rx = [], log = (?l @ [Read 2, Read 28, Read 2]) @ [Read 2]\<rparr>)"
    using recv_negack_then [of "?l @ [Read 2, Read 28, Read 2]"] by simp
  show ?thesis
    using
      autosample_loop_stop [OF h1 r1, where tup = "replicate 13 257"
        and smp = "SampleS0 (Some 257) (Some 257)" and c' = "Suc (Suc 0)"
        and p = "\<lparr>rx = 0xA5 # 0xA5 # ?F @ ?F @ [], log = []\<rparr>"]
      autosample_loop_stop [OF h2 r2,
        where p = "\<lparr>rx = 0xA5 # 0xA5 # ?F @ [0x96, 0x96], log = []\<rparr>"]
      e1 h1 e2 h2
    by (simp add: unpack_ones SampleS0_init_def)
qed

text \<open>
  C1 as stated fails for the negative acknowledgement: with \<open>0x96 0x96\<close> waiting, the
  loop raises \<open>CommandFailure\<close> and the only call made on the port is the header read.
\<close>

theorem autosample_loop_negack_counterexample:
  "autosample_loop HPMA115S0 (\<lambda>n smp. (False, Suc n)) (0::nat) \<lparr>rx = [0x96, 0x96], log = []\<rparr> =
     (Inl CommandFailure, 0, \<lparr>rx = [], log = [Read 2]\<rparr>)"
  by (subst autosample_loop.simps) (simp add: recv_negack [of _ "[]"])

subsection \<open>Failures\<close>

text \<open>
  C5, as the code has it. Take any run of the loop from its entry and any iteration of it,
  the first one or one reached after \<open>n\<close> samples that the consumer accepted. An
  exception of \<open>_recv\<close> in that iteration (\<open>ChecksumFailure\<close>, \<open>SerialDataMalformed\<close>, or
  any other) ends the whole loop, and \<open>autosample\<close> with it, with that exception, in the
  state \<open>_recv\<close> left and with the enable frame as the only packet written. Whenever
  \<open>autosample\<close> ends with an exception, the enable frame is the only packet it has
  written, so the disable frame has not been sent; and if the disable frame has been
  sent, \<open>autosample\<close> has returned normally and the consumer has returned false, handing
  back the consumer state that \<open>autosample\<close> returns.
\<close>

theorem autosample_error_no_disable:
  "(loop_head v callback n c q = Some (ck, sk) \<and> recv sk = (Inl e, sr) \<longrightarrow>
      autosample_loop v callback c q = (Inl e, ck, sr) \<and>
      (loop_entry p = Some q \<longrightarrow>
         autosample v callback c p = (Inl e, ck, sr) \<and> written_since p sr = [enable_frame])) \<and>
   (autosample v callback c p = (Inl e', c', s') \<longrightarrow>
      written_since p s' = [enable_frame] \<and> disable_frame \<notin> set (written_since p s')) \<and>
   (autosample v callback c p = (r, c', s') \<and> disable_frame \<in> set (written_since p s') \<longrightarrow>
      r = Inr () \<and> (\<exists>c0 smp. callback c0 smp = (False, c')))"
proof (intro conjI impI)
  assume a: "loop_head v callback n c q = Some (ck, sk) \<and> recv sk = (Inl e, sr)"
  then have h: "loop_head v callback n c q = Some (ck, sk)" and r: "recv sk = (Inl e, sr)"
    by blast+
  show l: "autosample_loop v callback c q = (Inl e, ck, sr)"
    using loop_head_continues [OF h] loop_step_error [OF r, of v callback ck] by simp
  assume "loop_entry p = Some q"
  from autosample_enters_loop [OF this, of v callback c] l
  show run: "autosample v callback c p = (Inl e, ck, sr)" by simp
  from autosample_written [OF run] show "written_since p sr = [enable_frame]" by simp
next
  assume "autosample v callback c p = (Inl e', c', s')"
  from autosample_written [OF this]
  show "written_since p s' = [enable_frame]" by simp
  then show "disable_frame \<notin> set (written_since p s')"
    by (simp add: disable_frame_def enable_frame_def)
next
  assume a: "autosample v callback c p = (r, c', s') \<and> disable_frame \<in> set (written_since p s')"
  then have run: "autosample v callback c p = (r, c', s')" by simp
  from autosample_written [OF this] a show r: "r = Inr ()"
    by (cases r) (auto simp add: disable_frame_def enable_frame_def)
  from run r show "\<exists>c0 smp. callback c0 smp = (False, c')"
    by (intro autosample_return_consumer [where u = "()"]) simp
qed

text \<open>
  The theorem at two runs that start with an acknowledgement and one accepted frame,
  followed by an unknown header in the first and by a frame with a wrong checksum in the
  second, and at the run that the consumer stops.
\<close>

theorem autosample_error_no_disable_witness:
  "loop_head HPMA115C0 (\<lambda>n smp. (True, Suc n)) (Suc 0) (0::nat)
     \<lparr>rx = [0x42, 0x4D] @ (0 # 28 # replicate 26 1) @ [0, 0xC5] @ [0x41, 0x00],
       log = [Write enable_frame, Read 2]\<rparr> =
     Some (Suc 0, \<lparr>rx = [0x41, 0x00],
       log = [Write enable_frame, Read 2, Read 2, Read 28, Read 2]\<rparr>) \<and>
   recv \<lparr>rx = [0x41, 0x00], log = [Write enable_frame, Read 2, Read 2, Read 28, Read 2]\<rparr> =
     (Inl SerialDataMalformed,
      \<lparr>rx = [], log = [Write enable_frame, Read 2, Read 2, Read 28, Read 2, Read 2, ResetInput]\<rparr>) \<and>
   autosample HPMA115C0 (\<lambda>n smp. (True, Suc n)) (0::nat)
     \<lparr>rx = 0xA5 # 0xA5 # [0x42, 0x4D] @ (0 # 28 # replicate 26 1) @ [0, 0xC5] @ [0x41, 0x00],
       log = []\<rparr> =
     (Inl SerialDataMalformed, Suc 0,
      \<lparr>rx = [], log = [Write enable_frame, Read 2, Read 2, Read 28, Read 2, Read 2, ResetInput]\<rparr>) \<and>
   disable_frame \<notin> set (written_since
     \<lparr>rx = 0xA5 # 0xA5 # [0x42, 0x4D] @ (0 # 28 # replicate 26 1) @ [0, 0xC5] @ [0x41, 0x00],
       log = []\<rparr>
     \<lparr>rx = [], log = [Write enable_frame, Read 2, Read 2, Read 28, Read 2, Read 2, ResetInput]\<rparr>) \<and>
   autosample HPMA115C0 (\<lambda>n smp. (True, Suc n)) (0::nat)
     \<lparr>rx = 0xA5 # 0xA5 # [0x42, 0x4D] @ (0 # 28 # replicate 26 1) @ [0, 0xC5] @
            [0x42, 0x4D] @ (0 # 28 # replicate 26 1) @ [0, 0xC6] @ [],
       log = []\<rparr> =
     (Inl ChecksumFailure, Suc 0,
      \<lparr>rx = [],
        log = [Write enable_frame, Read 2, Read 2, Read 28, Read 2, Read 2, Read 28, Read 2]\<rparr>) \<and>
   autosample HPMA115S0 (\<lambda>n smp. (False, Suc n)) (0::nat)
      \<lparr>rx = [0xA5, 0xA5] @ [0x42, 0x4D] @ (0 # 28 # replicate 26 1) @ [0, 0xC5] @ [],
       log = []\<rparr> =
    (Inr (), 1,
     \<lparr>rx = [],
       log = [Write enable_frame, Read 2, Read 2, Read 28, Read 2,
              Write disable_frame, Sleep 200, ResetInput]\<rparr>) \<and>
   disable_frame \<in> set (written_since
      \<lparr>rx = [0xA5, 0xA5] @ [0x42, 0x4D] @ (0 # 28 # replicate 26 1) @ [0, 0xC5] @ [],
       log = []\<rparr>
      \<lparr>rx = [],
       log = [Write enable_frame, Read 2, Read 2, Read 28, Read 2,
              Write disable_frame, Sleep 200, ResetInput]\<rparr>)"
proof -
  let ?cb = "\<lambda>(n::nat) (smp::sample). (True, Suc n)"
  let ?F = "[0x42, 0x4D] @ (0 # 28 # replicate 26 1) @ [0, 0xC5::byte]"
  let ?B = "[0x42, 0x4D] @ (0 # 28 # replicate 26 1) @ [0, 0xC6::byte]"
  let ?l = "[Write enable_frame, Read 2]"
  let ?l1 = "[Write enable_frame, Read 2, Read 2, Read 28, Read 2]"
  have e1: "loop_entry \<lparr>rx = 0xA5 # 0xA5 # ?F @ [0x41, 0x00], log = []\<rparr> =
      Some \<lparr>rx = ?F @ [0x41, 0x00], log = ?l\<rparr>"
    using loop_entry_posack [of "?F @ [0x41, 0x00]" "[]"] by simp
  have h1: "loop_head HPMA115C0 ?cb (Suc 0) 0 \<lparr>rx = ?F @ [0x41, 0x00], log = ?l\<rparr> =
      Some (Suc 0, \<lparr>rx = [0x41, 0x00], log = ?l1\<rparr>)"
    using loop_head_one [of HPMA115C0 ?cb 0 "[0x41, 0x00]" ?l] by (simp add: SampleC0_init_def)
  have r1: "recv \<lparr>rx = [0x41, 0x00], log = ?l1\<rparr> =
      (Inl SerialDataMalformed, \<lparr>rx = [], log = ?l1 @ [Read 2, ResetInput]\<rparr>)"
    by (rule recv_bad_header)
  have e2: "loop_entry \<lparr>rx = 0xA5 # 0xA5 # ?F @ ?B @ [], log = []\<rparr> =
      Some \<lparr>rx = ?F @ ?B @ [], log = ?l\<rparr>"
    using loop_entry_posack [of "?F @ ?B @ []" "[]"] by simp
  have h2: "loop_head HPMA115C0 ?cb (Suc 0) 0 \<lparr>rx = ?F @ ?B @ [], log = ?l\<rparr> =
      Some (Suc 0, \<lparr>rx = ?B @ [], log = ?l1\<rparr>)"
    using loop_head_one [of HPMA115C0 ?cb 0 "?B @ []" ?l] by (simp add: SampleC0_init_def)
  have r2: "recv \<lparr>rx = ?B @ [], log = ?l1\<rparr> =
      (Inl ChecksumFailure, \<lparr>rx = [], log = ?l1 @ [Read 2, Read 28, Read 2]\<rparr>)"
    using recv_bad_checksum [of "[]" ?l1] by simp
  show ?thesis
    using
      autosample_error_no_disable [where v = HPMA115C0 and callback = ?cb and n = "Suc 0"
        and c = "0::nat" and q = "\<lparr>rx = ?F @ [0x41, 0x00], log = ?l\<rparr>" and ck = "Suc 0"
        and sk = "\<lparr>rx = [0x41, 0x00], log = ?l1\<rparr>" and e = SerialDataMalformed
        and sr = "\<lparr>rx = [], log = ?l1 @ [Read 2, ResetInput]\<rparr>"
        and p = "\<lparr>rx = 0xA5 # 0xA5 # ?F @ [0x41, 0x00], log = []\<rparr>"
        and e' = SerialDataMalformed and c' = "Suc 0"
        and s' = "\<lparr>rx = [], log = ?l1 @ [Read 2, ResetInput]\<rparr>"]
      autosample_error_no_disable [where v = HPMA115C0 and callback = ?cb and n = "Suc 0"
        and c = "0::nat" and q = "\<lparr>rx = ?F @ ?B @ [], log = ?l\<rparr>" and ck = "Suc 0"
        and sk = "\<lparr>rx = ?B @ [], log = ?l1\<rparr>" and e = ChecksumFailure
        and sr = "\<lparr>rx = [], log = ?l1 @ [Read 2, Read 28, Read 2]\<rparr>"
        and p = "\<lparr>rx = 0xA5 # 0xA5 # ?F @ ?B @ [], log = []\<rparr>"]
      autosample_error_no_disable [where v = HPMA115S0 and callback = "\<lambda>n smp. (False, Suc n)"
        and c = "0::nat" and r = "Inr ()" and c' = 1
        and p = "\<lparr>rx = [0xA5, 0xA5] @ ?F @ [], log = []\<rparr>"
        and s' = "\<lparr>rx = [],
           log = [Write enable_frame, Read 2, Read 2, Read 28, Read 2,
                  Write disable_frame, Sleep 200, ResetInput]\<rparr>"]
      e1 h1 r1 e2 h2 r2 autosample_stop_run
    by (simp add: written_since_def)
qed

text \<open>
  C5 as stated fails in its last clause: a stop caused by a negative acknowledgement does
  not run the disable sequence. In this run the device acknowledges, sends one frame that
  the consumer accepts, then sends \<open>0x96 0x96\<close>: \<open>autosample\<close> raises \<open>CommandFailure\<close>
  and the enable frame is the only packet written.
\<close>

theorem autosample_negack_counterexample:
  "autosample HPMA115C0 (\<lambda>n smp. (True, Suc n)) (0::nat)
      \<lparr>rx = [0xA5, 0xA5] @ [0x42, 0x4D] @ (0 # 28 # replicate 26 1) @ [0, 0xC5] @ [0x96, 0x96],
       log = []\<rparr> =
    (Inl CommandFailure, 1,
     \<lparr>rx = [], log = [Write enable_frame, Read 2, Read 2, Read 28, Read 2, Read 2]\<rparr>)"
proof -
  let ?cb = "\<lambda>(n::nat) (smp::sample). (True, Suc n)"
  have 2: "autosample_loop HPMA115C0 ?cb 1
      \<lparr>rx = [0x96, 0x96], log = [Write enable_frame, Read 2] @ [Read 2, Read 28, Read 2]\<rparr> =
    (Inl CommandFailure, 1,
     \<lparr>rx = [], log = [Write enable_frame, Read 2, Read 2, Read 28, Read 2, Read 2]\<rparr>)"
    by (subst autosample_loop.simps) (simp add: recv_negack_then)
  have 1: "autosample_loop HPMA115C0 ?cb 0
      \<lparr>rx = [0x42, 0x4D] @ (0 # 28 # replicate 26 1) @ [0, 0xC5] @ [0x96, 0x96],
       log = [Write enable_frame, Read 2]\<rparr> =
    (Inl CommandFailure, 1,
     \<lparr>rx = [], log = [Write enable_frame, Read 2, Read 2, Read 28, Read 2, Read 2]\<rparr>)"
    by (subst autosample_loop.simps)
       (simp add: recv_ones_then [simplified] unpack_ones 2 [simplified] SampleC0_init_def)
  have 0: "recv \<lparr>rx = [0xA5, 0xA5] @ [0x42, 0x4D] @ (0 # 28 # replicate 26 1) @ [0, 0xC5] @ [0x96, 0x96],
       log = [] @ [Write enable_frame]\<rparr> =
     (Inr \<lparr>state = POSACK, data = None\<rparr>,
      \<lparr>rx = [0x42, 0x4D] @ (0 # 28 # replicate 26 1) @ [0, 0xC5] @ [0x96, 0x96],
       log = [Write enable_frame, Read 2]\<rparr>)"
    by (simp add: recv_defs Let_def)
  show ?thesis
    by (simp add: autosample_def send_enable 0 [simplified] 1 [simplified])
qed

section \<open>The single sample of the S0 variant\<close>

lemma length_be16_fields: "length (be16_fields bs) = length bs div 2"
  by (induction bs rule: be16_fields.induct) simp_all

lemma send_sample:
  "send 0x04 None s = (Inr (), s\<lparr>log := log s @ [Write [0x68, 0x01, 0x04, 0x93]]\<rparr>)"
  by (simp add: send_def bytearray_append_def ser_write_def checksum_def sum_bytes_def)


text \<open>
  \<open>sample\<close> unpacks six fields for both variants, and \<open>SampleS0.__init__\<close> has no
  branch for six: whenever \<open>sample\<close> returns for the S0 variant, the sample has neither
  attribute.
\<close>

lemma SampleS0_six_fields:
  "struct_unpack_H 6 buf = Inr tup \<Longrightarrow> SampleS0_init tup = SampleS0 None None"
  by (auto simp add: struct_unpack_H_def SampleS0_init_def length_be16_fields
      split: option.splits if_splits)

lemma sample_S0_unset:
  assumes "sample HPMA115S0 s = (Inr smp, s')"
  shows "smp = SampleS0 None None"
  using assms
  by (auto simp add: sample_def send_sample SampleS0_six_fields
      split: prod.splits sum.splits if_splits)


text \<open>
  C4 at its failing inputs. The S0 answer to command \<open>0x04\<close> with a two-field payload
  (\<open>40 05 04 00 37 00 4D 33\<close>: PM2.5 = 55, PM10 = 77) makes \<open>sample\<close> raise
  \<open>struct.error\<close>, since four bytes are not six fields; an answer with a six-field
  payload is unpacked and gives a \<open>SampleS0\<close> on which neither \<open>PM2_5\<close> nor \<open>PM10\<close> is
  set.
\<close>

theorem sample_S0_failing_input:
  "sample HPMA115S0 \<lparr>rx = [0x40, 0x05, 0x04, 0x00, 0x37, 0x00, 0x4D, 0x33], log = []\<rparr> =
     (Inl StructError,
      \<lparr>rx = [], log = [Write [0x68, 0x01, 0x04, 0x93], Read 2, Read 5, Read 1]\<rparr>) \<and>
   sample HPMA115S0
       \<lparr>rx = [0x40, 0x0D, 0x04, 0x00, 0x37, 0x00, 0x4D, 0, 0, 0, 0, 0, 0, 0, 0, 0x2B], log = []\<rparr> =
     (Inr (SampleS0 None None),
      \<lparr>rx = [], log = [Write [0x68, 0x01, 0x04, 0x93], Read 2, Read 13, Read 1]\<rparr>)"
  by (simp add: sample_def send_sample recv_defs Let_def from_bytes_big_def checksum_def
      sum_bytes_def struct_unpack_H_def SampleS0_init_def)


section \<open>Short reads\<close>

text \<open>
  C10 as stated fails: the module has no timeout exception. With \<open>40 02 BE\<close> waiting,
  the body read returns one byte of two and the checksum read returns none, and \<open>_recv\<close>
  returns a \<open>DATA\<close> response; with nothing waiting it raises \<open>IndexError\<close>.
\<close>

theorem recv_short_read_counterexample:
  "recv \<lparr>rx = [0x40, 0x02, 0xBE], log = []\<rparr> =
     (Inr \<lparr>state = DATA, data = Some []\<rparr>, \<lparr>rx = [], log = [Read 2, Read 2, Read 1]\<rparr>) \<and>
   recv \<lparr>rx = [], log = []\<rparr> = (Inl IndexError, \<lparr>rx = [], log = [Read 2]\<rparr>)"
  by (simp add: recv_defs Let_def from_bytes_big_def checksum_def sum_bytes_def)


text \<open>
  C10, as the code has it. What \<open>_recv\<close> does when a read comes back short: an empty
  header raises \<open>IndexError\<close>; a one-byte header raises \<open>IndexError\<close> when the byte is
  one of \<open>0x40\<close>, \<open>0x42\<close>, \<open>0xA5\<close>, \<open>0x96\<close> and \<open>SerialDataMalformed\<close> otherwise; a
  command-response frame cut anywhere after its header is checked as it came, with the
  missing checksum byte read as 0, and is returned as data when the checksum of the
  bytes received is 0; a streaming frame cut after its header raises \<open>struct.error\<close>.
\<close>

theorem recv_short_read:
  "(rx s = [] \<longrightarrow> recv s = (Inl IndexError, s\<lparr>log := log s @ [Read 2]\<rparr>)) \<and>
   (rx s = [h0] \<longrightarrow>
      fst (recv s) = (if h0 \<in> {0x40, 0x42, 0xA5, 0x96} then Inl IndexError
                      else Inl SerialDataMalformed)) \<and>
   (rx s = 0x40 # h1 # body \<and> length body \<le> unat h1 \<longrightarrow>
      fst (recv s) = (if checksum (0x40 # h1 # body) = 0
                      then Inr \<lparr>state = DATA, data = Some (drop 1 body)\<rparr>
                      else Inl ChecksumFailure)) \<and>
   (rx s = 0x42 # 0x4D # body \<and> length body < 30 \<longrightarrow> fst (recv s) = Inl StructError)"
  by (auto simp add: recv_defs Let_def from_bytes_big_def)

theorem recv_short_read_witness:
  "recv \<lparr>rx = [], log = []\<rparr> = (Inl IndexError, \<lparr>rx = [], log = [Read 2]\<rparr>) \<and>
   fst (recv \<lparr>rx = [0xA5], log = []\<rparr>) = Inl IndexError \<and>
   fst (recv \<lparr>rx = [0x07], log = []\<rparr>) = Inl SerialDataMalformed \<and>
   fst (recv \<lparr>rx = [0x40, 0x02, 0xBE], log = []\<rparr>) = Inr \<lparr>state = DATA, data = Some []\<rparr> \<and>
   fst (recv \<lparr>rx = [0x40, 0x05, 0x04, 0x00], log = []\<rparr>) = Inl ChecksumFailure \<and>
   fst (recv \<lparr>rx = [0x42, 0x4D, 0x00, 0x1C], log = []\<rparr>) = Inl StructError"
  using recv_short_read [of "\<lparr>rx = [], log = []\<rparr>"]
    recv_short_read [of "\<lparr>rx = [0xA5], log = []\<rparr>" "0xA5"]
    recv_short_read [of "\<lparr>rx = [0x07], log = []\<rparr>" "0x07"]
    recv_short_read [of "\<lparr>rx = [0x40, 0x02, 0xBE], log = []\<rparr>" _ "0x02" "[0xBE]"]
    recv_short_read [of "\<lparr>rx = [0x40, 0x05, 0x04, 0x00], log = []\<rparr>" _ "0x05" "[0x04, 0x00]"]
    recv_short_read [of "\<lparr>rx = [0x42, 0x4D, 0x00, 0x1C], log = []\<rparr>" _ _ "[0x00, 0x1C]"]
  by (simp add: checksum_def sum_bytes_def)


section \<open>Changing one byte of a frame\<close>

lemma sum_bytes_update:
  "i < length xs \<Longrightarrow> sum_bytes (xs[i := b]) = sum_bytes xs - uint (xs ! i) + uint b"
  unfolding sum_bytes_def
proof (induction xs arbitrary: i)
  case Nil
  then show ?case by simp
next
  case (Cons x xs)
  then show ?case by (cases i) simp_all
qed

lemma uint_byte_range: "0 \<le> uint (b :: byte) \<and> uint b < 256"
  using uint_bounded [of b] by simp

lemma mod_differs:
  fixes x y A n :: int
  assumes "0 \<le> x" "x < 256" "0 \<le> y" "y < 256" "x \<noteq> y" "256 \<le> n"
  shows "(A + x) mod n \<noteq> (A + y) mod n"
proof
  assume "(A + x) mod n = (A + y) mod n"
  then have "n dvd (A + x) - (A + y)" by (simp add: mod_eq_dvd_iff)
  then have "n dvd x - y" by simp
  moreover have "x - y \<noteq> 0" using assms(5) by simp
  ultimately have "\<bar>n\<bar> \<le> \<bar>x - y\<bar>" by (rule dvd_imp_le_int [rotated])
  with assms show False by linarith
qed

lemma checksum_update:
  assumes "i < length xs" and "b \<noteq> xs ! i"
  shows "checksum (xs[i := b]) \<noteq> checksum xs"
proof -
  have ne: "uint b \<noteq> uint (xs ! i)" using assms(2) by (simp add: word_uint_eq_iff)
  have ne': "uint (xs ! i) \<noteq> uint b" using ne by simp
  have "checksum (xs[i := b]) = ((65536 - sum_bytes xs - uint b) + uint (xs ! i)) mod 256"
    using assms(1) by (simp add: checksum_def sum_bytes_update algebra_simps)
  moreover have "checksum xs = ((65536 - sum_bytes xs - uint b) + uint b) mod 256"
    by (simp add: checksum_def)
  moreover have "((65536 - sum_bytes xs - uint b) + uint (xs ! i)) mod 256
      \<noteq> ((65536 - sum_bytes xs - uint b) + uint b) mod 256"
    using uint_byte_range [of b] uint_byte_range [of "xs ! i"] ne'
    by (intro mod_differs) simp_all
  ultimately show ?thesis by simp
qed

lemma sum16_update:
  assumes "i < length xs" and "b \<noteq> xs ! i"
  shows "sum_bytes (xs[i := b]) mod 65536 \<noteq> sum_bytes xs mod 65536"
proof -
  have ne: "uint b \<noteq> uint (xs ! i)" using assms(2) by (simp add: word_uint_eq_iff)
  have "sum_bytes (xs[i := b]) = (sum_bytes xs - uint (xs ! i)) + uint b"
    using assms(1) by (simp add: sum_bytes_update)
  moreover have "sum_bytes xs = (sum_bytes xs - uint (xs ! i)) + uint (xs ! i)"
    by simp
  moreover have "((sum_bytes xs - uint (xs ! i)) + uint b) mod 65536
      \<noteq> ((sum_bytes xs - uint (xs ! i)) + uint (xs ! i)) mod 65536"
    using uint_byte_range [of b] uint_byte_range [of "xs ! i"] ne
    by (intro mod_differs) simp_all
  ultimately show ?thesis by simp
qed

lemma recv_command_frame:
  assumes "rx s = 0x40 # h1 # body @ k # rest" and "length body = unat h1"
  shows "recv s =
           (if uint k \<noteq> checksum (0x40 # h1 # body) then Inl ChecksumFailure
            else Inr \<lparr>state = DATA, data = Some (drop 1 body)\<rparr>,
            s\<lparr>rx := rest, log := log s @ [Read 2, Read (unat h1), Read 1]\<rparr>)"
  using assms by (simp add: recv_defs from_bytes_big_def Let_def)

lemma recv_stream:
  assumes "rx s = 0x42 # 0x4D # body @ c1 # c2 # rest" and "length body = 28"
  shows "recv s =
           (if uint c1 * 256 + uint c2 \<noteq> sum_bytes (0x42 # 0x4D # body) mod 65536
            then Inl ChecksumFailure
            else Inr \<lparr>state = DATA, data = Some (drop 2 body)\<rparr>,
            s\<lparr>rx := rest, log := log s @ [Read 2, Read 28, Read 2]\<rparr>)"
  using assms by (simp add: recv_defs from_bytes_big_two Let_def)

lemma command_frame_flip:
  assumes len: "length body = unat h1"
    and ok: "fst (recv (s\<lparr>rx := 0x40 # h1 # body @ k # rest\<rparr>)) = Inr rsp"
    and i: "i < length body + 1"
    and b: "b \<noteq> (body @ [k]) ! i"
  shows "fst (recv (s\<lparr>rx := 0x40 # h1 # (body @ [k])[i := b] @ rest\<rparr>)) = Inl ChecksumFailure"
proof -
  have k: "uint k = checksum (0x40 # h1 # body)"
    using ok recv_command_frame [of "s\<lparr>rx := 0x40 # h1 # body @ k # rest\<rparr>" h1 body k rest] len
    by (simp split: if_splits)
  show ?thesis
  proof (cases "i < length body")
    case True
    then have upd: "(body @ [k])[i := b] = body[i := b] @ [k]"
      by (simp add: list_update_append)
    have "b \<noteq> (0x40 # h1 # body) ! (i + 2)" using b True by (simp add: nth_append)
    then have "checksum ((0x40 # h1 # body)[i + 2 := b]) \<noteq> checksum (0x40 # h1 # body)"
      using True by (intro checksum_update) simp_all
    then have "uint k \<noteq> checksum (0x40 # h1 # body[i := b])" using k by simp
    then show ?thesis
      using recv_command_frame [of "s\<lparr>rx := 0x40 # h1 # body[i := b] @ k # rest\<rparr>" h1 "body[i := b]" k rest]
        len upd by simp
  next
    case False
    with i have ieq: "i = length body" by simp
    then have upd: "(body @ [k])[i := b] = body @ [b]" by simp
    have "b \<noteq> k" using b ieq by simp
    then have "uint b \<noteq> checksum (0x40 # h1 # body)"
      using k by (simp add: word_uint_eq_iff)
    then show ?thesis
      using recv_command_frame [of "s\<lparr>rx := 0x40 # h1 # body @ b # rest\<rparr>" h1 body b rest]
        len upd by simp
  qed
qed

lemma stream_frame_flip:
  assumes len: "length body = 28"
    and ok: "fst (recv (s\<lparr>rx := 0x42 # 0x4D # body @ c1 # c2 # rest\<rparr>)) = Inr rsp"
    and i: "i < 30"
    and b: "b \<noteq> (body @ [c1, c2]) ! i"
  shows "fst (recv (s\<lparr>rx := 0x42 # 0x4D # (body @ [c1, c2])[i := b] @ rest\<rparr>)) = Inl ChecksumFailure"
proof -
  have k: "uint c1 * 256 + uint c2 = sum_bytes (0x42 # 0x4D # body) mod 65536"
    using ok recv_stream [of "s\<lparr>rx := 0x42 # 0x4D # body @ c1 # c2 # rest\<rparr>" body c1 c2 rest] len
    by (simp split: if_splits)
  consider "i < length body" | "i = length body" | "i = Suc (length body)"
    using i len by linarith
  then show ?thesis
  proof cases
    case 1
    then have upd: "(body @ [c1, c2])[i := b] = body[i := b] @ [c1, c2]"
      by (simp add: list_update_append)
    have "b \<noteq> (0x42 # 0x4D # body) ! (i + 2)" using b 1 by (simp add: nth_append)
    then have "sum_bytes ((0x42 # 0x4D # body)[i + 2 := b]) mod 65536
        \<noteq> sum_bytes (0x42 # 0x4D # body) mod 65536"
      using 1 by (intro sum16_update) simp_all
    then have "uint c1 * 256 + uint c2 \<noteq> sum_bytes (0x42 # 0x4D # body[i := b]) mod 65536"
      using k by simp
    then show ?thesis
      using recv_stream [of "s\<lparr>rx := 0x42 # 0x4D # body[i := b] @ c1 # c2 # rest\<rparr>"
          "body[i := b]" c1 c2 rest] len upd by simp
  next
    case 2
    then have upd: "(body @ [c1, c2])[i := b] = body @ [b, c2]" by simp
    have "b \<noteq> c1" using b 2 by (simp add: nth_append)
    then have "uint b \<noteq> uint c1" by (simp add: word_uint_eq_iff)
    then have "uint b * 256 + uint c2 \<noteq> sum_bytes (0x42 # 0x4D # body) mod 65536"
      using k by simp
    then show ?thesis
      using recv_stream [of "s\<lparr>rx := 0x42 # 0x4D # body @ b # c2 # rest\<rparr>" body b c2 rest]
        len upd by simp
  next
    case 3
    then have upd: "(body @ [c1, c2])[i := b] = body @ [c1, b]"
      by (simp add: list_update_append)
    have "b \<noteq> c2" using b 3 by (simp add: nth_append)
    then have "uint b \<noteq> uint c2" by (simp add: word_uint_eq_iff)
    then have "uint c1 * 256 + uint b \<noteq> sum_bytes (0x42 # 0x4D # body) mod 65536"
      using k by simp
    then show ?thesis
      using recv_stream [of "s\<lparr>rx := 0x42 # 0x4D # body @ c1 # b # rest\<rparr>" body c1 b rest]
        len upd by simp
  qed
qed


text \<open>
  C9, as the code has it. Take a command-response data frame whose length byte counts its
  body, or a streaming data frame with its 28-byte body, followed by any further input,
  and let \<open>_recv\<close> accept it. Replacing any one byte at position 2 or later (a body byte
  or a checksum byte) by a different value makes \<open>_recv\<close> raise \<open>ChecksumFailure\<close>.
\<close>

theorem flip_after_header:
  "(length body = unat h1 \<and> frame = 0x40 # h1 # body @ [k] \<and>
    fst (recv (s\<lparr>rx := frame @ rest\<rparr>)) = Inr rsp \<and>
    2 \<le> j \<and> j < length frame \<and> b \<noteq> frame ! j \<longrightarrow>
      fst (recv (s\<lparr>rx := frame[j := b] @ rest\<rparr>)) = Inl ChecksumFailure) \<and>
   (length body = 28 \<and> frame = 0x42 # 0x4D # body @ [c1, c2] \<and>
    fst (recv (s\<lparr>rx := frame @ rest\<rparr>)) = Inr rsp \<and>
    2 \<le> j \<and> j < length frame \<and> b \<noteq> frame ! j \<longrightarrow>
      fst (recv (s\<lparr>rx := frame[j := b] @ rest\<rparr>)) = Inl ChecksumFailure)"
proof (intro conjI impI)
  assume a: "length body = unat h1 \<and> frame = 0x40 # h1 # body @ [k] \<and>
    fst (recv (s\<lparr>rx := frame @ rest\<rparr>)) = Inr rsp \<and>
    2 \<le> j \<and> j < length frame \<and> b \<noteq> frame ! j"
  then have len: "length body = unat h1" and fr: "frame = 0x40 # h1 # body @ [k]"
    and ok: "fst (recv (s\<lparr>rx := frame @ rest\<rparr>)) = Inr rsp"
    and j2: "2 \<le> j" and jl: "j < length frame" and b: "b \<noteq> frame ! j"
    by blast+
  from j2 obtain i where j: "j = Suc (Suc i)"
    by (metis Suc_le_D numeral_2_eq_2 Suc_le_mono)
  have "fst (recv (s\<lparr>rx := 0x40 # h1 # (body @ [k])[i := b] @ rest\<rparr>)) = Inl ChecksumFailure"
  proof (rule command_frame_flip [where rsp = rsp])
    show "length body = unat h1" by (rule len)
    show "fst (recv (s\<lparr>rx := 0x40 # h1 # body @ k # rest\<rparr>)) = Inr rsp"
      using ok by (simp add: fr)
    show "i < length body + 1" using jl by (simp add: fr j)
    show "b \<noteq> (body @ [k]) ! i" using b by (simp add: fr j)
  qed
  then show "fst (recv (s\<lparr>rx := frame[j := b] @ rest\<rparr>)) = Inl ChecksumFailure"
    by (simp add: fr j)
next
  assume a: "length body = 28 \<and> frame = 0x42 # 0x4D # body @ [c1, c2] \<and>
    fst (recv (s\<lparr>rx := frame @ rest\<rparr>)) = Inr rsp \<and>
    2 \<le> j \<and> j < length frame \<and> b \<noteq> frame ! j"
  then have len: "length body = 28" and fr: "frame = 0x42 # 0x4D # body @ [c1, c2]"
    and ok: "fst (recv (s\<lparr>rx := frame @ rest\<rparr>)) = Inr rsp"
    and j2: "2 \<le> j" and jl: "j < length frame" and b: "b \<noteq> frame ! j"
    by blast+
  from j2 obtain i where j: "j = Suc (Suc i)"
    by (metis Suc_le_D numeral_2_eq_2 Suc_le_mono)
  have "fst (recv (s\<lparr>rx := 0x42 # 0x4D # (body @ [c1, c2])[i := b] @ rest\<rparr>)) = Inl ChecksumFailure"
  proof (rule stream_frame_flip [where rsp = rsp])
    show "length body = 28" by (rule len)
    show "fst (recv (s\<lparr>rx := 0x42 # 0x4D # body @ c1 # c2 # rest\<rparr>)) = Inr rsp"
      using ok by (simp add: fr)
    show "i < 30" using jl by (simp add: fr j len)
    show "b \<noteq> (body @ [c1, c2]) ! i" using b by (simp add: fr j)
  qed
  then show "fst (recv (s\<lparr>rx := frame[j := b] @ rest\<rparr>)) = Inl ChecksumFailure"
    by (simp add: fr j)
qed

text \<open>
  The theorem at the command-response frame \<open>40 01 04 BB\<close> and at the streaming frame
  with 26 payload bytes of value 1, each with its byte at position 2 replaced.
\<close>

theorem flip_after_header_witness:
  "fst (recv \<lparr>rx = [0x40, 0x01, 0x04, 0xBB] @ [], log = []\<rparr>) = Inr \<lparr>state = DATA, data = Some []\<rparr> \<and>
   fst (recv \<lparr>rx = [0x40, 0x01, 0x04, 0xBB][2 := 0x05] @ [], log = []\<rparr>) = Inl ChecksumFailure \<and>
   fst (recv \<lparr>rx = (0x42 # 0x4D # (0 # 28 # replicate 26 1) @ [0, 0xC5]) @ [], log = []\<rparr>) =
     Inr \<lparr>state = DATA, data = Some (replicate 26 1)\<rparr> \<and>
   fst (recv \<lparr>rx = (0x42 # 0x4D # (0 # 28 # replicate 26 1) @ [0, 0xC5])[2 := 0x01] @ [], log = []\<rparr>) =
     Inl ChecksumFailure"
  using
    flip_after_header [where body = "[0x04]" and ?h1.0 = "0x01" and k = "0xBB"
      and frame = "[0x40, 0x01, 0x04, 0xBB]" and s = "\<lparr>rx = [], log = []\<rparr>" and rest = "[]"
      and rsp = "\<lparr>state = DATA, data = Some []\<rparr>" and j = 2 and b = "0x05"]
    flip_after_header [where body = "0 # 28 # replicate 26 1" and ?c1.0 = 0 and ?c2.0 = "0xC5"
      and frame = "0x42 # 0x4D # (0 # 28 # replicate 26 1) @ [0, 0xC5]"
      and s = "\<lparr>rx = [], log = []\<rparr>" and rest = "[]"
      and rsp = "\<lparr>state = DATA, data = Some (replicate 26 1)\<rparr>" and j = 2 and b = "0x01"]
  by (simp add: recv_defs Let_def from_bytes_big_def checksum_def sum_bytes_def sum_list_replicate)

text \<open>
  C9 as stated fails for the header bytes. With its first byte replaced by \<open>0x41\<close>, the
  frame \<open>40 01 04 BB\<close> raises \<open>SerialDataMalformed\<close>. With its length byte replaced by
  \<open>0x01\<close>, the frame \<open>40 02 04 BB FF\<close> is accepted: its last payload byte is taken for
  the checksum and matches. With its second byte replaced by \<open>0x4C\<close>, the streaming frame
  raises \<open>SerialDataMalformed\<close>.
\<close>

theorem flip_header_counterexample:
  "fst (recv \<lparr>rx = [0x40, 0x01, 0x04, 0xBB], log = []\<rparr>) = Inr \<lparr>state = DATA, data = Some []\<rparr> \<and>
   fst (recv \<lparr>rx = [0x40, 0x01, 0x04, 0xBB][0 := 0x41], log = []\<rparr>) = Inl SerialDataMalformed \<and>
   fst (recv \<lparr>rx = [0x40, 0x02, 0x04, 0xBB, 0xFF], log = []\<rparr>) =
     Inr \<lparr>state = DATA, data = Some [0xBB]\<rparr> \<and>
   fst (recv \<lparr>rx = [0x40, 0x02, 0x04, 0xBB, 0xFF][1 := 0x01], log = []\<rparr>) =
     Inr \<lparr>state = DATA, data = Some []\<rparr> \<and>
   fst (recv \<lparr>rx = 0x42 # 0x4D # (0 # 28 # replicate 26 1) @ [0, 0xC5], log = []\<rparr>) =
     Inr \<lparr>state = DATA, data = Some (replicate 26 1)\<rparr> \<and>
   fst (recv \<lparr>rx = (0x42 # 0x4D # (0 # 28 # replicate 26 1) @ [0, 0xC5])[1 := 0x4C], log = []\<rparr>) =
     Inl SerialDataMalformed"
  by (simp add: recv_defs Let_def from_bytes_big_def checksum_def sum_bytes_def sum_list_replicate)

end
